theory Spec2Isabelle
  imports Complex_Main
begin

section \<open>Constants and data model of \<^verbatim>\<open>src/App.tsx\<close>\<close>

text \<open>
  Player and ghost coordinates are JavaScript numbers that only ever take integer
  values (they start at multiples of the tile size and change by the speeds 4, 2 and
  \<^verbatim>\<open>2 * 0.5\<close>), so they are modelled as \<^typ>\<open>int\<close>. Witch coordinates come from
  \<^verbatim>\<open>Math.random()\<close> and \<^verbatim>\<open>Math.sin\<close>; they are modelled as \<^typ>\<open>real\<close>.
  Every \<^verbatim>\<open>Math.random()\<close> draw is an explicit input of the function that makes it.
  Sound, popups, wall fragments, colours and the displayed copies of counters
  (\<^verbatim>\<open>consumptionRate\<close>, \<^verbatim>\<open>wallsLeft\<close> state) do not influence the simulation and are
  left out.
\<close>

abbreviation TILE_SIZE :: int where "TILE_SIZE \<equiv> 36"
abbreviation GRID_WIDTH :: int where "GRID_WIDTH \<equiv> 15"
abbreviation GRID_HEIGHT :: int where "GRID_HEIGHT \<equiv> 21"
abbreviation CANVAS_WIDTH :: int where "CANVAS_WIDTH \<equiv> TILE_SIZE * GRID_WIDTH"
abbreviation CANVAS_HEIGHT :: int where "CANVAS_HEIGHT \<equiv> TILE_SIZE * GRID_HEIGHT"

text \<open>Tile codes, as the numbers the source stores in the maze.\<close>

abbreviation EMPTY :: nat where "EMPTY \<equiv> 0"
abbreviation WALL :: nat where "WALL \<equiv> 1"
abbreviation PELLET :: nat where "PELLET \<equiv> 2"
abbreviation POWER_CANDY :: nat where "POWER_CANDY \<equiv> 3"
abbreviation GHOST_SPAWN :: nat where "GHOST_SPAWN \<equiv> 4"
abbreviation PLAYER_SPAWN :: nat where "PLAYER_SPAWN \<equiv> 5"
abbreviation TOMBSTONE :: nat where "TOMBSTONE \<equiv> 6"
abbreviation FRUIT :: nat where "FRUIT \<equiv> 7"

datatype Direction = UP | DOWN | LEFT | RIGHT | NONE

datatype GameState = START | PLAYING | GAMEOVER | WON | COUNTDOWN

record Entity =
  pos_x :: int
  pos_y :: int
  dir :: Direction
  nextDir :: Direction
  speed :: int

record GhostEntity = Entity +
  isScared :: bool
  isEaten :: bool
  isDying :: bool
  deathTimer :: int

record WitchEntity =
  wx :: real
  wy :: real
  wspeed :: real
  active :: bool
  phase :: real

type_synonym Maze = "nat list list"

text \<open>
  The React state (\<^verbatim>\<open>score\<close>, \<^verbatim>\<open>lives\<close>, \<^verbatim>\<open>gameState\<close>, \<^verbatim>\<open>stage\<close>,
  \<^verbatim>\<open>countdown\<close>) and the refs read and written by the game loop.

  React does not run a state updater at the call of the setter: it queues it and runs it
  when it renders the component next, after the function that called the setter has
  returned. For the pure updaters of \<^verbatim>\<open>setScore\<close> and for the plain values given to
  \<^verbatim>\<open>setGameState\<close> and \<^verbatim>\<open>setLives\<close> this makes no difference to the value the state
  has after the render, and they are written as assignments in program order. The updater
  passed to \<^verbatim>\<open>setLives\<close> at the three collision sites reads the lives, calls
  \<^verbatim>\<open>resetPositions\<close> and sets the run state, so for it the delay matters: \<open>queued\<close>
  is the number of these updaters that have been passed to \<^verbatim>\<open>setLives\<close> and not run
  yet.
\<close>

record state =
  gameState :: GameState
  score :: int
  lives :: int
  stage :: int
  countdown :: int
  maze :: Maze
  pacman :: Entity
  ghosts :: "GhostEntity list"
  witches :: "WitchEntity list"
  powerMode :: int
  wallsLeft :: int
  totalPellets :: int
  eatenPellets :: int
  queued :: nat

subsection \<open>Maze access\<close>

text \<open>
  \<^verbatim>\<open>maze[gy]?.[gx]\<close>: \<^verbatim>\<open>undefined\<close> (here \<open>None\<close>) when either index is outside
  the array.
\<close>

definition cell_at :: "Maze \<Rightarrow> int \<Rightarrow> int \<Rightarrow> nat option" where
  "cell_at m gy gx =
     (if 0 \<le> gy \<and> gy < int (length m) then
        (if 0 \<le> gx \<and> gx < int (length (m ! nat gy)) then Some (m ! nat gy ! nat gx)
         else None)
      else None)"

text \<open>\<^verbatim>\<open>maze[gy][gx] = v\<close>; the source only writes cells it has just read.\<close>

definition set_cell :: "Maze \<Rightarrow> int \<Rightarrow> int \<Rightarrow> nat \<Rightarrow> Maze" where
  "set_cell m gy gx v =
     (if cell_at m gy gx = None then m
      else m[nat gy := (m ! nat gy)[nat gx := v]])"

text \<open>
  \<^verbatim>\<open>Math.floor(Math.random() * GRID_WIDTH)\<close> and the same for the height: a draw
  is a pair of naturals, reduced to the ranges \<open>0..14\<close> and \<open>0..20\<close>.
\<close>

definition rand_cell :: "nat \<times> nat \<Rightarrow> int \<times> int" where
  "rand_cell r = (int (fst r) mod GRID_WIDTH, int (snd r) mod GRID_HEIGHT)"

subsection \<open>\<^verbatim>\<open>canMove\<close>\<close>

definition canMove :: "state \<Rightarrow> int \<Rightarrow> int \<Rightarrow> Direction \<Rightarrow> bool" where
  "canMove s x y d =
     (let buffer = 4;
          nextY = (if d = UP then y - buffer
                   else if d = DOWN then y + (TILE_SIZE + buffer - 1) else y);
          nextX = (if d = LEFT then x - buffer
                   else if d = RIGHT then x + (TILE_SIZE + buffer - 1) else x);
          gridX = nextX div TILE_SIZE;
          gridY = nextY div TILE_SIZE
      in if gridX < 0 \<or> gridX \<ge> GRID_WIDTH then True
         else if gridY < 0 \<or> gridY \<ge> GRID_HEIGHT then False
         else (let cell = cell_at (maze s) gridY gridX in
               if cell = Some WALL then powerMode s > 0 \<and> wallsLeft s > 0
               else cell \<noteq> Some WALL))"

text \<open>The cell \<^verbatim>\<open>canMove\<close> looks at: the point 4 units ahead of the leading edge.\<close>

definition lookahead :: "int \<Rightarrow> int \<Rightarrow> Direction \<Rightarrow> int \<times> int" where
  "lookahead x y d =
     ((if d = LEFT then x - 4 else if d = RIGHT then x + (TILE_SIZE + 4 - 1) else x)
        div TILE_SIZE,
      (if d = UP then y - 4 else if d = DOWN then y + (TILE_SIZE + 4 - 1) else y)
        div TILE_SIZE)"

text \<open>
  The two wrap statements shared by the player and the ghosts:
  \<^verbatim>\<open>if (x < -TILE_SIZE) x = CANVAS_WIDTH; if (x > CANVAS_WIDTH) x = -TILE_SIZE;\<close>
\<close>

definition wrap :: "int \<Rightarrow> int" where
  "wrap x = (let x1 = (if x < - TILE_SIZE then CANVAS_WIDTH else x)
             in if x1 > CANVAS_WIDTH then - TILE_SIZE else x1)"

subsection \<open>\<^verbatim>\<open>resetPositions\<close> and the life-loss updater\<close>

definition resetGhost :: "nat \<Rightarrow> GhostEntity \<Rightarrow> GhostEntity" where
  "resetGhost i g =
     g\<lparr>pos_x := (GRID_WIDTH div 2 + (if i mod 2 = 0 then - 1 else 1)) * TILE_SIZE,
       pos_y := (GRID_HEIGHT div 2) * TILE_SIZE,
       dir := UP, isScared := False, isEaten := False, isDying := False\<rparr>"

definition resetPositions :: "state \<Rightarrow> state" where
  "resetPositions s =
     s\<lparr>pacman := \<lparr>pos_x = (GRID_WIDTH div 2) * TILE_SIZE,
                   pos_y = (GRID_HEIGHT - 2) * TILE_SIZE,
                   dir = NONE, nextDir = NONE, speed = 4\<rparr>,
       ghosts := map (\<lambda>(i, g). resetGhost i g) (enumerate 0 (ghosts s))\<rparr>"

text \<open>
  The updater the source passes to \<^verbatim>\<open>setLives\<close> at all three collision sites:
  \<^verbatim>\<open>l => { if (l <= 1) { setGameState('GAMEOVER'); return 0; } resetPositions(); return l - 1; }\<close>
\<close>

definition loseLife :: "state \<Rightarrow> state" where
  "loseLife s =
     (if lives s \<le> 1 then s\<lparr>gameState := GAMEOVER, lives := 0\<rparr>
      else (resetPositions s)\<lparr>lives := lives s - 1\<rparr>)"

text \<open>The call \<^verbatim>\<open>setLives(l => ...)\<close> itself: one more updater in the queue.\<close>

definition setLives_loseLife :: "state \<Rightarrow> state" where
  "setLives_loseLife s = s\<lparr>queued := Suc (queued s)\<rparr>"

text \<open>
  The render that follows: the queued updaters run in the order of their calls, each on
  the lives the one before it returned.
\<close>

definition render :: "state \<Rightarrow> state" where
  "render s = ((loseLife ^^ queued s) s)\<lparr>queued := 0\<rparr>"

section \<open>One tick: \<^verbatim>\<open>update\<close>\<close>

text \<open>The random draws one call of \<^verbatim>\<open>update\<close> may make, in the order of the code.\<close>

record inputs =
  respawn_draws :: "nat \<Rightarrow> nat \<times> nat"
  ghost_dir_draw :: "nat \<Rightarrow> nat"
  ghost_revive_draw :: "nat \<Rightarrow> bool"
  candy_bonus :: "(nat \<times> nat) option"
  fruit_bonus :: "(nat \<times> nat) option"
  witch_spawn :: "(real \<times> real \<times> real) option"

subsection \<open>Player movement and wall break\<close>

definition isAligned :: "int \<Rightarrow> int \<Rightarrow> bool" where
  "isAligned x y = (x mod TILE_SIZE = 0 \<and> y mod TILE_SIZE = 0)"

definition turn :: "state \<Rightarrow> state" where
  "turn s =
     (let p = pacman s in
      if nextDir p \<noteq> NONE \<and> isAligned (pos_x p) (pos_y p)
         \<and> canMove s (pos_x p) (pos_y p) (nextDir p)
      then s\<lparr>pacman := p\<lparr>dir := nextDir p, nextDir := NONE\<rparr>\<rparr>
      else s)"

definition advance :: "int \<Rightarrow> ('a Entity_scheme) \<Rightarrow> ('a Entity_scheme)" where
  "advance sp e =
     (case dir e of
        UP \<Rightarrow> e\<lparr>pos_y := pos_y e - sp\<rparr>
      | DOWN \<Rightarrow> e\<lparr>pos_y := pos_y e + sp\<rparr>
      | LEFT \<Rightarrow> e\<lparr>pos_x := pos_x e - sp\<rparr>
      | RIGHT \<Rightarrow> e\<lparr>pos_x := pos_x e + sp\<rparr>
      | NONE \<Rightarrow> e)"

text \<open>
  \<^verbatim>\<open>Math.floor((p + TILE_SIZE / 2) / TILE_SIZE)\<close> and \<^verbatim>\<open>Math.round(p / TILE_SIZE)\<close>
  agree on integers: both are the floor of \<open>(p + 18) / 36\<close>.
\<close>

definition centre_cell :: "int \<Rightarrow> int" where
  "centre_cell p = (p + TILE_SIZE div 2) div TILE_SIZE"

definition break_wall :: "state \<Rightarrow> state" where
  "break_wall s =
     (if powerMode s > 0 \<and> wallsLeft s > 0 then
        (let gridX = centre_cell (pos_x (pacman s));
             gridY = centre_cell (pos_y (pacman s))
         in if cell_at (maze s) gridY gridX = Some WALL
            then s\<lparr>maze := set_cell (maze s) gridY gridX EMPTY,
                   wallsLeft := wallsLeft s - 1,
                   score := score s + 50\<rparr>
            else s)
      else s)"

definition snap :: "Entity \<Rightarrow> Entity" where
  "snap p = p\<lparr>pos_x := centre_cell (pos_x p) * TILE_SIZE,
              pos_y := centre_cell (pos_y p) * TILE_SIZE\<rparr>"

definition move_phase :: "state \<Rightarrow> state" where
  "move_phase s =
     (let isAtIntersection = isAligned (pos_x (pacman s)) (pos_y (pacman s));
          s1 = turn s;
          p = pacman s1;
          s2 = (if canMove s1 (pos_x p) (pos_y p) (dir p)
                then break_wall (s1\<lparr>pacman := advance (speed p) p\<rparr>)
                else if \<not> isAtIntersection then s1\<lparr>pacman := snap p\<rparr>
                else s1)
      in s2\<lparr>pacman := (pacman s2)\<lparr>pos_x := wrap (pos_x (pacman s2))\<rparr>\<rparr>)"

definition out_of_bounds :: "Entity \<Rightarrow> bool" where
  "out_of_bounds p =
     (pos_x p < - TILE_SIZE * 2 \<or> pos_x p > CANVAS_WIDTH + TILE_SIZE * 2 \<or>
      pos_y p < - TILE_SIZE * 2 \<or> pos_y p > CANVAS_HEIGHT + TILE_SIZE * 2)"

subsection \<open>Tile effects\<close>

text \<open>
  The bounded respawn loop of the power-candy branch; the result carries the flag and the
  attempt counter with which the loop ends.
\<close>

function respawn_loop :: "(nat \<Rightarrow> nat \<times> nat) \<Rightarrow> Maze \<Rightarrow> bool \<Rightarrow> nat \<Rightarrow> Maze \<times> bool \<times> nat" where
  "respawn_loop draws m respawned attempts =
     (if \<not> respawned \<and> attempts < 100 then
        (let rx = fst (rand_cell (draws attempts));
             ry = snd (rand_cell (draws attempts))
         in if cell_at m ry rx = Some PELLET \<or> cell_at m ry rx = Some EMPTY
            then respawn_loop draws (set_cell m ry rx POWER_CANDY) True (attempts + 1)
            else respawn_loop draws m respawned (attempts + 1))
      else (m, respawned, attempts))"
  by pat_completeness auto
termination
  by (relation "measure (\<lambda>(draws, m, respawned, attempts). 100 - attempts)") auto

definition eat_candy :: "inputs \<Rightarrow> int \<Rightarrow> int \<Rightarrow> state \<Rightarrow> state" where
  "eat_candy inp gridY gridX s =
     (let m1 = set_cell (maze s) gridY gridX EMPTY;
          gs = map (\<lambda>g. if \<not> isEaten g then g\<lparr>isScared := True\<rparr> else g) (ghosts s)
      in s\<lparr>maze := fst (respawn_loop (respawn_draws inp) m1 False 0),
           eatenPellets := eatenPellets s + 1,
           score := score s + 50,
           powerMode := 600,
           wallsLeft := 5,
           ghosts := gs\<rparr>)"

definition hit_tombstone :: "int \<Rightarrow> int \<Rightarrow> state \<Rightarrow> state" where
  "hit_tombstone gridY gridX s =
     (if powerMode s = 0
      then (setLives_loseLife s)\<lparr>maze := set_cell (maze s) gridY gridX EMPTY\<rparr>
      else s\<lparr>maze := set_cell (maze s) gridY gridX EMPTY,
             wallsLeft := (if wallsLeft s > 0 then wallsLeft s - 1 else wallsLeft s),
             score := score s + 100\<rparr>)"

text \<open>
  \<open>pac\<close> is the object the tick captured in \<^verbatim>\<open>const pacman = pacmanRef.current\<close>:
  the \<^verbatim>\<open>resetPositions\<close> of the out-of-bounds recovery replaces the ref by a new
  object, and the rest of the tick goes on reading the captured one.
\<close>

definition tile_phase :: "inputs \<Rightarrow> Entity \<Rightarrow> state \<Rightarrow> state" where
  "tile_phase inp pac s =
     (let gridX = centre_cell (pos_x pac);
          gridY = centre_cell (pos_y pac);
          cell = cell_at (maze s) gridY gridX
      in if cell = Some PELLET then
           s\<lparr>maze := set_cell (maze s) gridY gridX EMPTY,
             eatenPellets := eatenPellets s + 1,
             score := score s + 10\<rparr>
         else if cell = Some POWER_CANDY then eat_candy inp gridY gridX s
         else if cell = Some TOMBSTONE then hit_tombstone gridY gridX s
         else if cell = Some FRUIT then
           s\<lparr>maze := set_cell (maze s) gridY gridX EMPTY, score := score s + 500\<rparr>
         else s)"

subsection \<open>Power-mode countdown\<close>

definition power_phase :: "state \<Rightarrow> state" where
  "power_phase s =
     (if powerMode s > 0 then
        (let s1 = s\<lparr>powerMode := powerMode s - 1\<rparr>
         in if powerMode s1 = 0
            then s1\<lparr>ghosts := map (\<lambda>g. g\<lparr>isScared := False\<rparr>) (ghosts s1)\<rparr>
            else s1)
      else s)"

subsection \<open>Ghosts\<close>

definition ghost_dying :: "GhostEntity \<Rightarrow> GhostEntity" where
  "ghost_dying g =
     (let g1 = g\<lparr>deathTimer := deathTimer g - 1, pos_y := pos_y g - 2\<rparr>
      in if deathTimer g1 \<le> 0
         then g1\<lparr>isDying := False, isEaten := True,
                 pos_x := (GRID_WIDTH div 2) * TILE_SIZE,
                 pos_y := (GRID_HEIGHT div 2) * TILE_SIZE\<rparr>
         else g1)"

definition reverses :: "Direction \<Rightarrow> Direction \<Rightarrow> bool" where
  "reverses d gd =
     (d = UP \<and> gd = DOWN \<or> d = DOWN \<and> gd = UP \<or>
      d = LEFT \<and> gd = RIGHT \<or> d = RIGHT \<and> gd = LEFT)"

definition ghost_choose :: "state \<Rightarrow> nat \<Rightarrow> GhostEntity \<Rightarrow> GhostEntity" where
  "ghost_choose s r g =
     (if pos_x g mod TILE_SIZE = 0 \<and> pos_y g mod TILE_SIZE = 0 then
        (let validDirs = filter (\<lambda>d. \<not> reverses d (dir g) \<and> canMove s (pos_x g) (pos_y g) d)
                           [UP, DOWN, LEFT, RIGHT]
         in if length validDirs > 0 then g\<lparr>dir := validDirs ! (r mod length validDirs)\<rparr>
            else (let anyValid = filter (\<lambda>d. canMove s (pos_x g) (pos_y g) d)
                                   [UP, DOWN, LEFT, RIGHT]
                  in g\<lparr>dir := (case anyValid of [] \<Rightarrow> NONE | d # _ \<Rightarrow> d)\<rparr>))
      else g)"

text \<open>
  \<^verbatim>\<open>ghost.isScared ? ghost.speed * 0.5 : ghost.speed\<close>: the speed of every ghost
  is 2 (set by \<^verbatim>\<open>initGame\<close>, never assigned again), so the halved speed is the
  integer 1, written here with integer division.
\<close>

definition ghost_move :: "GhostEntity \<Rightarrow> GhostEntity" where
  "ghost_move g =
     (let sp = (if isScared g then speed g div 2 else speed g);
          g1 = advance sp g
      in g1\<lparr>pos_x := wrap (pos_x g1)\<rparr>)"

text \<open>
  \<^verbatim>\<open>Math.sqrt(Math.pow(ax - bx, 2) + Math.pow(ay - by, 2)) < r\<close>, over the reals.
\<close>

definition closer_than :: "real \<Rightarrow> real \<Rightarrow> real \<Rightarrow> real \<Rightarrow> real \<Rightarrow> bool" where
  "closer_than r ax ay bx by = (sqrt ((ax - bx)\<^sup>2 + (ay - by)\<^sup>2) < r)"

definition ghost_collide :: "Entity \<Rightarrow> nat \<Rightarrow> state \<Rightarrow> state" where
  "ghost_collide pac i s =
     (let g = ghosts s ! i in
      if closer_than (real_of_int TILE_SIZE * 0.8)
           (real_of_int (pos_x pac)) (real_of_int (pos_y pac))
           (real_of_int (pos_x g)) (real_of_int (pos_y g))
         \<and> \<not> isEaten g \<and> \<not> isDying g
      then (if isScared g
            then s\<lparr>ghosts := (ghosts s)[i := g\<lparr>isScared := False, isDying := True,
                                               deathTimer := 30\<rparr>],
                   score := score s + 200\<rparr>
            else setLives_loseLife s)
      else s)"

definition ghost_revive :: "bool \<Rightarrow> nat \<Rightarrow> state \<Rightarrow> state" where
  "ghost_revive r i s =
     (let g = ghosts s ! i in
      if isEaten g \<and> r then s\<lparr>ghosts := (ghosts s)[i := g\<lparr>isEaten := False\<rparr>]\<rparr> else s)"

text \<open>The body of \<^verbatim>\<open>ghostsRef.current.forEach(ghost => ...)\<close> for the ghost at index \<open>i\<close>.\<close>

definition ghost_step :: "inputs \<Rightarrow> Entity \<Rightarrow> nat \<Rightarrow> state \<Rightarrow> state" where
  "ghost_step inp pac i s =
     (let g = ghosts s ! i in
      if isDying g then s\<lparr>ghosts := (ghosts s)[i := ghost_dying g]\<rparr>
      else (let s1 = s\<lparr>ghosts := (ghosts s)[i := ghost_move (ghost_choose s (ghost_dir_draw inp i) g)]\<rparr>
            in ghost_revive (ghost_revive_draw inp i) i (ghost_collide pac i s1)))"

definition ghosts_phase :: "inputs \<Rightarrow> Entity \<Rightarrow> state \<Rightarrow> state" where
  "ghosts_phase inp pac s = fold (ghost_step inp pac) [0..<length (ghosts s)] s"

subsection \<open>Win check, bonus spawns and witches\<close>

text \<open>
  \<^verbatim>\<open>eatenPellets / totalPellets >= 0.75\<close> on JavaScript numbers holding integers:
  \<^verbatim>\<open>0 / 0\<close> is \<^verbatim>\<open>NaN\<close> (comparison false), \<^verbatim>\<open>e / 0\<close> is an infinity with the sign of \<open>e\<close>.
\<close>

definition win_reached :: "int \<Rightarrow> int \<Rightarrow> bool" where
  "win_reached e t =
     (if t = 0 then e > 0 else if t > 0 then 4 * e \<ge> 3 * t else 4 * e \<le> 3 * t)"

text \<open>
  The second conjunct of the source's test, \<^verbatim>\<open>gameState === 'PLAYING'\<close>, reads the
  value captured by the closure, which is \<^verbatim>\<open>'PLAYING'\<close> whenever this point is reached.
\<close>

definition win_phase :: "state \<Rightarrow> state" where
  "win_phase s =
     (if win_reached (eatenPellets s) (totalPellets s) then s\<lparr>gameState := WON\<rparr> else s)"

definition bonus_phase :: "(nat \<times> nat) option \<Rightarrow> nat \<Rightarrow> state \<Rightarrow> state" where
  "bonus_phase draw tile s =
     (case draw of
        None \<Rightarrow> s
      | Some r \<Rightarrow>
          (let rx = fst (rand_cell r); ry = snd (rand_cell r)
           in if cell_at (maze s) ry rx = Some EMPTY
              then s\<lparr>maze := set_cell (maze s) ry rx tile\<rparr> else s))"

definition witch_spawn_phase :: "(real \<times> real \<times> real) option \<Rightarrow> state \<Rightarrow> state" where
  "witch_spawn_phase draw s =
     (case draw of
        None \<Rightarrow> s
      | Some (u1, u2, u3) \<Rightarrow>
          if length (witches s) < 2
          then s\<lparr>witches := witches s @
                   [\<lparr>wx = u1 * real_of_int CANVAS_WIDTH, wy = - 50, wspeed = 2 + u2 * 2,
                     active = True, phase = u3 * pi * 2\<rparr>]\<rparr>
          else s)"

definition witch_step :: "Entity \<Rightarrow> nat \<Rightarrow> state \<Rightarrow> state" where
  "witch_step pac i s =
     (let w = witches s ! i;
          w1 = w\<lparr>wy := wy w + wspeed w\<rparr>;
          w2 = w1\<lparr>wx := wx w1 + sin (wy w1 / 30 + phase w1) * 3\<rparr>
      in if closer_than (real_of_int TILE_SIZE * 0.7)
              (real_of_int (pos_x pac)) (real_of_int (pos_y pac)) (wx w2) (wy w2)
            \<and> active w2
         then setLives_loseLife (s\<lparr>witches := (witches s)[i := w2\<lparr>active := False\<rparr>]\<rparr>)
         else s\<lparr>witches := (witches s)[i := w2]\<rparr>)"

definition witches_phase :: "Entity \<Rightarrow> state \<Rightarrow> state" where
  "witches_phase pac s =
     (let s1 = fold (witch_step pac) [0..<length (witches s)] s
      in s1\<lparr>witches := filter (\<lambda>w. wy w < real_of_int CANVAS_HEIGHT + 50 \<and> active w)
                          (witches s1)\<rparr>)"

subsection \<open>\<^verbatim>\<open>update\<close>\<close>

definition update :: "inputs \<Rightarrow> state \<Rightarrow> state" where
  "update inp s =
     (if gameState s \<noteq> PLAYING then s
      else
        (let s1 = move_phase s;
             pac = pacman s1;
             s2 = (if out_of_bounds pac then resetPositions s1 else s1);
             s3 = tile_phase inp pac s2;
             s4 = power_phase s3;
             s5 = ghosts_phase inp pac s4;
             s6 = win_phase s5;
             s7 = bonus_phase (candy_bonus inp) POWER_CANDY s6;
             s8 = bonus_phase (fruit_bonus inp) FRUIT s7;
             s9 = witch_spawn_phase (witch_spawn inp) s8
         in witches_phase pac s9))"

text \<open>
  One animation frame: \<^verbatim>\<open>update\<close>, then the render React has scheduled for the state
  changes \<^verbatim>\<open>update\<close> asked for. The render is taken to happen before any other
  event is handled, so the next frame and every event handler start with an empty queue.
\<close>

definition tick :: "inputs \<Rightarrow> state \<Rightarrow> state" where
  "tick inp s = render (update inp s)"

text \<open>
  The states of a \<^verbatim>\<open>PLAYING\<close> run in which the ghost loop and the witch loop of
  \<^verbatim>\<open>update\<close> start (\<open>s4\<close> and \<open>s9\<close> above).
\<close>

definition before_ghosts :: "inputs \<Rightarrow> state \<Rightarrow> state" where
  "before_ghosts inp s =
     (let s1 = move_phase s;
          pac = pacman s1;
          s2 = (if out_of_bounds pac then resetPositions s1 else s1)
      in power_phase (tile_phase inp pac s2))"

definition before_witches :: "inputs \<Rightarrow> state \<Rightarrow> state" where
  "before_witches inp s =
     witch_spawn_phase (witch_spawn inp)
       (bonus_phase (fruit_bonus inp) FRUIT
         (bonus_phase (candy_bonus inp) POWER_CANDY
           (win_phase (ghosts_phase inp (pacman (move_phase s)) (before_ghosts inp s)))))"

section \<open>Maze generation and \<^verbatim>\<open>initGame\<close>\<close>

text \<open>
  \<^verbatim>\<open>dirs.sort(() => Math.random() - 0.5)\<close> returns some permutation of the four
  directions; the draw \<open>r\<close> selects it (first element \<open>r mod 4\<close>, and so on).
\<close>

function shuffle :: "nat \<Rightarrow> 'a list \<Rightarrow> 'a list" where
  "shuffle r xs =
     (if xs = [] then []
      else (let i = r mod length xs
            in (xs ! i) # shuffle (r div length xs) (take i xs @ drop (Suc i) xs)))"
  by pat_completeness auto
termination
proof (relation "measure (\<lambda>(r, xs). length xs)")
  fix r :: nat and xs :: "'a list" and i
  assume "xs \<noteq> []" and "i = r mod length xs"
  then have "i < length xs" by simp
  then show "((r div length xs, take i xs @ drop (Suc i) xs), r, xs)
               \<in> measure (\<lambda>(r, xs). length xs)"
    by (simp add: min_def)
qed simp

definition dirs0 :: "(int \<times> int) list" where
  "dirs0 = [(0, 2), (0, - 2), (2, 0), (- 2, 0)]"

text \<open>
  The recursive \<^verbatim>\<open>walk\<close> and its \<^verbatim>\<open>for\<close> loop over the shuffled directions. The
  pair carries the maze and the number of shuffles drawn so far. The first argument
  bounds the depth of the recursion (the call stack); \<open>None\<close> means the bound was hit.
  \<open>unvisited\<close> is the test of the \<^verbatim>\<open>if\<close> in the loop body.
\<close>

definition unvisited :: "Maze \<Rightarrow> int \<Rightarrow> int \<Rightarrow> bool" where
  "unvisited m nx ny =
     (nx > 0 \<and> nx < GRID_WIDTH - 1 \<and> ny > 0 \<and> ny < GRID_HEIGHT - 1
      \<and> cell_at m ny nx = Some WALL)"

fun walk :: "nat \<Rightarrow> (nat \<Rightarrow> nat) \<Rightarrow> int \<Rightarrow> int \<Rightarrow> Maze \<times> nat \<Rightarrow> (Maze \<times> nat) option"
  and walk_dirs :: "nat \<Rightarrow> (nat \<Rightarrow> nat) \<Rightarrow> int \<Rightarrow> int \<Rightarrow> (int \<times> int) list \<Rightarrow> Maze \<times> nat
                     \<Rightarrow> (Maze \<times> nat) option" where
  "walk 0 rs x y g = None"
| "walk (Suc n) rs x y (m, k) =
     walk_dirs n rs x y (shuffle (rs k) dirs0) (set_cell m y x EMPTY, Suc k)"
| "walk_dirs n rs x y [] g = Some g"
| "walk_dirs n rs x y ((dx, dy) # ds) (m, k) =
     (let nx = x + dx; ny = y + dy
      in if unvisited m nx ny
         then (case walk n rs nx ny (set_cell m (y + dy div 2) (x + dx div 2) EMPTY, k) of
                 None \<Rightarrow> None
               | Some g' \<Rightarrow> walk_dirs n rs x y ds g')
         else walk_dirs n rs x y ds (m, k))"

definition all_walls :: Maze where
  "all_walls = replicate (nat GRID_HEIGHT) (replicate (nat GRID_WIDTH) WALL)"

definition carve_house :: "Maze \<Rightarrow> Maze" where
  "carve_house m =
     (let midX = GRID_WIDTH div 2; midY = GRID_HEIGHT div 2;
          m1 = fold (\<lambda>(i, j) a. set_cell a (midY + i) (midX + j) EMPTY)
                 (List.product [- 1, 0, 1] [- 1, 0, 1]) m
      in set_cell m1 midY midX GHOST_SPAWN)"

definition fill_pellets :: "Maze \<Rightarrow> Maze" where
  "fill_pellets m = map (map (\<lambda>c. if c = EMPTY then PELLET else c)) m"

definition generateMaze :: "(nat \<Rightarrow> nat) \<Rightarrow> Maze option" where
  "generateMaze rs =
     (case walk (nat (GRID_WIDTH * GRID_HEIGHT)) rs 1 1 (all_walls, 0) of
        None \<Rightarrow> None
      | Some (m, k) \<Rightarrow>
          Some (set_cell (fill_pellets (carve_house m)) (GRID_HEIGHT - 2) (GRID_WIDTH div 2)
                  PLAYER_SPAWN))"

text \<open>All cells in the order of the source's nested loops, rows outside.\<close>

definition all_cells :: "(int \<times> int) list" where
  "all_cells = List.product (map int [0..<nat GRID_HEIGHT]) (map int [0..<nat GRID_WIDTH])"

definition count_pellets :: "Maze \<Rightarrow> int" where
  "count_pellets m =
     int (length (filter (\<lambda>(y, x). cell_at m y x = Some PELLET \<or> cell_at m y x = Some POWER_CANDY)
                    all_cells))"

text \<open>The scan for tile 5: remembers the last one found and empties it.\<close>

definition find_start :: "Maze \<Rightarrow> (int \<times> int) \<times> Maze" where
  "find_start m =
     fold (\<lambda>(y, x) (p, a). if cell_at a y x = Some PLAYER_SPAWN
                            then ((x, y), set_cell a y x EMPTY) else (p, a))
       all_cells ((GRID_WIDTH div 2, GRID_HEIGHT - 2), m)"

text \<open>
  The two placement loops of \<^verbatim>\<open>initGame\<close>. They have no attempt counter; \<open>k\<close> is
  the number of draws consumed, and \<open>None\<close> stands for a loop that does not return.
\<close>

partial_function (option) place_candies ::
    "(nat \<Rightarrow> nat \<times> nat) \<Rightarrow> nat \<Rightarrow> Maze \<Rightarrow> nat \<Rightarrow> Maze option" where
  "place_candies draws k m placed =
     (if placed < 10 then
        (if cell_at m (snd (rand_cell (draws k))) (fst (rand_cell (draws k))) = Some PELLET
         then place_candies draws (k + 1)
                (set_cell m (snd (rand_cell (draws k))) (fst (rand_cell (draws k))) POWER_CANDY)
                (placed + 1)
         else place_candies draws (k + 1) m placed)
      else Some m)"

partial_function (option) place_tombstones ::
    "(nat \<Rightarrow> nat \<times> nat) \<Rightarrow> nat \<Rightarrow> Maze \<Rightarrow> nat \<Rightarrow> Maze option" where
  "place_tombstones draws k m tombstones =
     (if tombstones < 3 then
        (if cell_at m (snd (rand_cell (draws k))) (fst (rand_cell (draws k))) = Some PELLET
            \<or> cell_at m (snd (rand_cell (draws k))) (fst (rand_cell (draws k))) = Some EMPTY
         then place_tombstones draws (k + 1)
                (set_cell m (snd (rand_cell (draws k))) (fst (rand_cell (draws k))) TOMBSTONE)
                (tombstones + 1)
         else place_tombstones draws (k + 1) m tombstones)
      else Some m)"

record init_draws =
  shuffle_draws :: "nat \<Rightarrow> nat"
  candy_draws :: "nat \<Rightarrow> nat \<times> nat"
  tombstone_draws :: "nat \<Rightarrow> nat \<times> nat"

definition initial_ghosts :: "GhostEntity list" where
  "initial_ghosts =
     map (\<lambda>i. \<lparr>pos_x = (GRID_WIDTH div 2 + (if i mod 2 = 0 then - 1 else 1)) * TILE_SIZE,
                pos_y = (GRID_HEIGHT div 2) * TILE_SIZE, dir = UP, nextDir = UP, speed = 2,
                isScared = False, isEaten = False, isDying = False, deathTimer = 0\<rparr>)
       [0 ..< 4]"

definition initGame :: "bool \<Rightarrow> init_draws \<Rightarrow> state \<Rightarrow> state option" where
  "initGame isNextStage d s =
     (case generateMaze (shuffle_draws d) of
        None \<Rightarrow> None
      | Some newMaze \<Rightarrow>
          (let total = count_pellets newMaze;
               start = find_start newMaze
           in case place_candies (candy_draws d) 0 (snd start) 0 of
                None \<Rightarrow> None
              | Some m2 \<Rightarrow>
                  (case place_tombstones (tombstone_draws d) 0 m2 0 of
                     None \<Rightarrow> None
                   | Some m3 \<Rightarrow>
                       Some (s\<lparr>stage := (if isNextStage then stage s + 1 else 1),
                               score := (if isNextStage then score s else 0),
                               lives := (if isNextStage then lives s else 3),
                               maze := m3,
                               witches := [],
                               totalPellets := total,
                               eatenPellets := 0,
                               pacman := \<lparr>pos_x = fst (fst start) * TILE_SIZE,
                                           pos_y = snd (fst start) * TILE_SIZE,
                                           dir = NONE, nextDir = NONE, speed = 4\<rparr>,
                               ghosts := initial_ghosts,
                               wallsLeft := 0,
                               powerMode := 0\<rparr>))))"

section \<open>Events outside the tick\<close>

definition startGame :: "init_draws \<Rightarrow> state \<Rightarrow> state option" where
  "startGame d s = map_option (\<lambda>t. t\<lparr>gameState := PLAYING\<rparr>) (initGame False d s)"

definition nextStage :: "init_draws \<Rightarrow> state \<Rightarrow> state option" where
  "nextStage d s = map_option (\<lambda>t. t\<lparr>gameState := PLAYING\<rparr>) (initGame True d s)"

text \<open>The timer started by a win, and the one-second interval it starts.\<close>

definition countdown_start :: "state \<Rightarrow> state" where
  "countdown_start s = s\<lparr>gameState := COUNTDOWN, countdown := 3\<rparr>"

definition countdown_tick :: "init_draws \<Rightarrow> state \<Rightarrow> state option" where
  "countdown_tick d s =
     (if countdown s \<le> 1 then map_option (\<lambda>t. t\<lparr>countdown := 0\<rparr>) (nextStage d s)
      else Some (s\<lparr>countdown := countdown s - 1\<rparr>))"

datatype Key = Escape | ArrowUp | ArrowDown | ArrowLeft | ArrowRight | OtherKey

definition handleKeyDown :: "Key \<Rightarrow> state \<Rightarrow> state" where
  "handleKeyDown k s =
     (case k of
        Escape \<Rightarrow> s\<lparr>gameState := GAMEOVER\<rparr>
      | ArrowUp \<Rightarrow> s\<lparr>pacman := (pacman s)\<lparr>nextDir := UP\<rparr>\<rparr>
      | ArrowDown \<Rightarrow> s\<lparr>pacman := (pacman s)\<lparr>nextDir := DOWN\<rparr>\<rparr>
      | ArrowLeft \<Rightarrow> s\<lparr>pacman := (pacman s)\<lparr>nextDir := LEFT\<rparr>\<rparr>
      | ArrowRight \<Rightarrow> s\<lparr>pacman := (pacman s)\<lparr>nextDir := RIGHT\<rparr>\<rparr>
      | OtherKey \<Rightarrow> s)"

text \<open>\<^verbatim>\<open>handleQuit\<close> and the button of the game-over overlay.\<close>

definition toTitle :: "state \<Rightarrow> state" where
  "toTitle s = s\<lparr>gameState := START\<rparr>"

text \<open>The state with which the component is mounted.\<close>

definition mounted :: state where
  "mounted =
     \<lparr>gameState = START, score = 0, lives = 3, stage = 1, countdown = 3,
      maze = [],
      pacman = \<lparr>pos_x = 9 * TILE_SIZE, pos_y = 15 * TILE_SIZE, dir = NONE, nextDir = NONE,
                 speed = 2\<rparr>,
      ghosts = [], witches = [],
      powerMode = 0, wallsLeft = 0, totalPellets = 0, eatenPellets = 0, queued = 0\<rparr>"

text \<open>
  The states the program can be in: any sequence of frames, key presses, pointer moves
  (which set \<^verbatim>\<open>nextDir\<close> like the arrow keys), button clicks and timer callbacks, in
  any order.
\<close>

inductive reachable :: "state \<Rightarrow> bool" where
  reach_mounted: "reachable mounted"
| reach_tick: "reachable s \<Longrightarrow> reachable (tick inp s)"
| reach_key: "reachable s \<Longrightarrow> reachable (handleKeyDown k s)"
| reach_start: "reachable s \<Longrightarrow> startGame d s = Some t \<Longrightarrow> reachable t"
| reach_countdown: "reachable s \<Longrightarrow> reachable (countdown_start s)"
| reach_interval: "reachable s \<Longrightarrow> countdown_tick d s = Some t \<Longrightarrow> reachable t"
| reach_title: "reachable s \<Longrightarrow> reachable (toTitle s)"

section \<open>Example states\<close>

text \<open>
  A full-size grid with the border walled and the interior empty, the four ghosts and the
  player where \<^verbatim>\<open>initGame\<close> puts them, three lives, no power mode.
\<close>

definition box_maze :: Maze where
  "box_maze =
     replicate 15 WALL # replicate 19 (WALL # replicate 13 EMPTY @ [WALL]) @ [replicate 15 WALL]"

definition start_ghost :: "nat \<Rightarrow> GhostEntity" where
  "start_ghost i =
     \<lparr>pos_x = (GRID_WIDTH div 2 + (if i mod 2 = 0 then - 1 else 1)) * TILE_SIZE,
      pos_y = (GRID_HEIGHT div 2) * TILE_SIZE, dir = UP, nextDir = UP, speed = 2,
      isScared = False, isEaten = False, isDying = False, deathTimer = 0\<rparr>"

definition start_pacman :: Entity where
  "start_pacman =
     \<lparr>pos_x = (GRID_WIDTH div 2) * TILE_SIZE, pos_y = (GRID_HEIGHT - 2) * TILE_SIZE,
      dir = NONE, nextDir = NONE, speed = 4\<rparr>"

definition demo_state :: state where
  "demo_state =
     \<lparr>gameState = PLAYING, score = 0, lives = 3, stage = 1, countdown = 3,
      maze = box_maze, pacman = start_pacman,
      ghosts = map start_ghost [0, 1, 2, 3], witches = [],
      powerMode = 0, wallsLeft = 0, totalPellets = 100, eatenPellets = 0, queued = 0\<rparr>"

definition no_draws :: inputs where
  "no_draws =
     \<lparr>respawn_draws = (\<lambda>k. (0, 0)), ghost_dir_draw = (\<lambda>i. 0),
      ghost_revive_draw = (\<lambda>i. False),
      candy_bonus = None, fruit_bonus = None, witch_spawn = None\<rparr>"

text \<open>
  The first ghost half-way through its death animation and the second one eaten, both
  on the player's tile.
\<close>

definition guard_state :: state where
  "guard_state =
     demo_state\<lparr>ghosts :=
       [(start_ghost 0)\<lparr>pos_x := 7 * TILE_SIZE, pos_y := 19 * TILE_SIZE,
                        isDying := True, deathTimer := 10\<rparr>,
        (start_ghost 1)\<lparr>pos_x := 7 * TILE_SIZE, pos_y := 19 * TILE_SIZE, isEaten := True\<rparr>,
        start_ghost 2, start_ghost 3]\<rparr>"

text \<open>Power mode running, and a witch falling onto the player.\<close>

definition witch_state :: state where
  "witch_state =
     demo_state\<lparr>powerMode := 300, wallsLeft := 2,
       witches := [\<lparr>wx = 250, wy = 680, wspeed = 5 / 2, active = True, phase = 1\<rparr>]\<rparr>"

text \<open>
  \<open>l\<close> lives left, a tombstone on the start tile, and the player one step to the left of
  entering that tile, heading right.
\<close>

definition tomb_state :: "int \<Rightarrow> state" where
  "tomb_state l =
     demo_state\<lparr>lives := l,
       maze := set_cell box_maze 19 7 TOMBSTONE,
       pacman := start_pacman\<lparr>pos_x := 232, dir := RIGHT\<rparr>\<rparr>"

text \<open>
  Draws for which \<^verbatim>\<open>initGame\<close> returns, and the first stage they give from the mounted
  component.
\<close>

definition d0 :: init_draws where
  "d0 = \<lparr>shuffle_draws = (\<lambda>k. k * 7 + 3),
          candy_draws = (\<lambda>k. (k * 4 + 1, k * 5 + 1)),
          tombstone_draws = (\<lambda>k. (k * 3 + 2, k * 7 + 2))\<rparr>"

definition first_stage :: state where
  "first_stage = (case startGame d0 mounted of Some t \<Rightarrow> t | None \<Rightarrow> mounted)"

text \<open>Power mode running with no charge left, and the player about to enter a tombstone tile.\<close>

definition power_tomb_state :: state where
  "power_tomb_state = (tomb_state 3)\<lparr>powerMode := 300\<rparr>"

text \<open>
  Power mode running with five charges, and the player in column 1 moving up into the
  top border.
\<close>

definition break_state :: state where
  "break_state =
     demo_state\<lparr>powerMode := 300, wallsLeft := 5,
       pacman := start_pacman\<lparr>pos_x := 36, pos_y := 20, dir := UP\<rparr>\<rparr>"

text \<open>
  Power mode running; the first ghost eaten and waiting in the house centre, the others
  scared. The draws revive the first ghost.
\<close>

definition revive_state :: state where
  "revive_state =
     demo_state\<lparr>powerMode := 300, wallsLeft := 5,
       ghosts := [(start_ghost 0)\<lparr>pos_x := 7 * TILE_SIZE, isEaten := True\<rparr>,
                  (start_ghost 1)\<lparr>isScared := True\<rparr>,
                  (start_ghost 2)\<lparr>isScared := True\<rparr>,
                  (start_ghost 3)\<lparr>isScared := True\<rparr>]\<rparr>"

definition revive_draws :: inputs where
  "revive_draws = no_draws\<lparr>ghost_revive_draw := (\<lambda>i. i = 0)\<rparr>"

text \<open>The last tick of a power mode, with every ghost scared.\<close>

definition last_power_state :: state where
  "last_power_state =
     demo_state\<lparr>powerMode := 1,
       ghosts := map (\<lambda>i. (start_ghost i)\<lparr>isScared := True\<rparr>) [0, 1, 2, 3]\<rparr>"

text \<open>
  The witch example with the first ghost ten ticks away from the end of its death
  animation.
\<close>

definition dying_state :: state where
  "dying_state =
     witch_state\<lparr>ghosts :=
       [(start_ghost 0)\<lparr>pos_y := 300, isDying := True, deathTimer := 10\<rparr>,
        start_ghost 1, start_ghost 2, start_ghost 3]\<rparr>"

text \<open>A scared ghost on the player's tile.\<close>

definition catch_state :: state where
  "catch_state =
     demo_state\<lparr>powerMode := 300,
       ghosts := [(start_ghost 0)\<lparr>pos_x := 7 * TILE_SIZE, pos_y := 19 * TILE_SIZE,
                                  isScared := True\<rparr>,
                  start_ghost 1, start_ghost 2, start_ghost 3]\<rparr>"


text \<open>\<open>l\<close> lives left and a normal ghost on the player's tile.\<close>

definition bite_state :: "int \<Rightarrow> state" where
  "bite_state l =
     demo_state\<lparr>lives := l,
       ghosts := [(start_ghost 0)\<lparr>pos_x := 7 * TILE_SIZE, pos_y := 19 * TILE_SIZE\<rparr>,
                  start_ghost 1, start_ghost 2, start_ghost 3]\<rparr>"

text \<open>
  Power mode running with two charges left, and the player about to enter a tombstone tile.
\<close>

definition charged_tomb_state :: state where
  "charged_tomb_state = (tomb_state 3)\<lparr>powerMode := 300, wallsLeft := 2\<rparr>"

text \<open>
  One life left, 74 of 100 pellets eaten, a pellet on the player's tile and a normal ghost
  on it as well.
\<close>

definition win_bite_state :: state where
  "win_bite_state =
     (bite_state 1)\<lparr>eatenPellets := 74, maze := set_cell box_maze 19 7 PELLET\<rparr>"

text \<open>Three lives and two normal ghosts on the player's tile.\<close>

definition double_bite_state :: state where
  "double_bite_state =
     demo_state\<lparr>ghosts :=
       [(start_ghost 0)\<lparr>pos_x := 7 * TILE_SIZE, pos_y := 19 * TILE_SIZE\<rparr>,
        (start_ghost 1)\<lparr>pos_x := 7 * TILE_SIZE, pos_y := 19 * TILE_SIZE\<rparr>,
        start_ghost 2, start_ghost 3]\<rparr>"

text \<open>The witch example with one life left.\<close>

definition last_witch_state :: state where
  "last_witch_state = witch_state\<lparr>lives := 1\<rparr>"

section \<open>Predicates used in the statements\<close>

text \<open>No wall of the first maze is missing in the second.\<close>

definition walls_kept :: "Maze \<Rightarrow> Maze \<Rightarrow> bool" where
  "walls_kept m m' = (\<forall>gy gx. cell_at m gy gx = Some WALL \<longrightarrow> cell_at m' gy gx = Some WALL)"

text \<open>A cell strictly inside the border.\<close>

definition interior :: "int \<Rightarrow> int \<Rightarrow> bool" where
  "interior gy gx = (0 < gy \<and> gy < GRID_HEIGHT - 1 \<and> 0 < gx \<and> gx < GRID_WIDTH - 1)"

text \<open>The second maze is the first one with some interior cells emptied.\<close>

definition carved :: "Maze \<Rightarrow> Maze \<Rightarrow> bool" where
  "carved m m' =
     (\<forall>gy gx. cell_at m' gy gx = cell_at m gy gx \<or>
        (interior gy gx \<and> cell_at m' gy gx = Some EMPTY \<and> cell_at m gy gx \<noteq> None))"


text \<open>
  Every cell of the outer border (first and last row, first and last column) is a wall.
\<close>

definition border_cells :: "(int \<times> int) list" where
  "border_cells =
     filter (\<lambda>(gy, gx). gx = 0 \<or> gx = GRID_WIDTH - 1 \<or> gy = 0 \<or> gy = GRID_HEIGHT - 1) all_cells"

definition border_walled :: "Maze \<Rightarrow> bool" where
  "border_walled m = list_all (\<lambda>(gy, gx). cell_at m gy gx = Some WALL) border_cells"

text \<open>No ghost carries the \<^verbatim>\<open>isScared\<close> flag.\<close>

definition none_scared :: "state \<Rightarrow> bool" where
  "none_scared s = list_all (\<lambda>g. \<not> isScared g) (ghosts s)"

text \<open>The counter is not negative, and when it is 0 no ghost is scared.\<close>

definition power_inv :: "state \<Rightarrow> bool" where
  "power_inv s = (0 \<le> powerMode s \<and> (powerMode s = 0 \<longrightarrow> none_scared s))"

text \<open>
  Pellet accounting: the eaten count is between 0 and the total, and a run that is
  \<^verbatim>\<open>PLAYING\<close> has not reached the 75 percent threshold.
\<close>

definition pellet_inv :: "state \<Rightarrow> bool" where
  "pellet_inv s =
     (0 \<le> eatenPellets s \<and> eatenPellets s \<le> totalPellets s \<and>
      (gameState s = PLAYING \<longrightarrow> 4 * eatenPellets s < 3 * totalPellets s))"

section \<open>Auxiliary lemmas\<close>

lemma closer_than_iff:
  "closer_than r ax ay bx by = (0 < r \<and> (ax - bx)\<^sup>2 + (ay - by)\<^sup>2 < r\<^sup>2)"
proof (cases "0 < r")
  case True
  then have "sqrt ((ax - bx)\<^sup>2 + (ay - by)\<^sup>2) < r
      \<longleftrightarrow> sqrt ((ax - bx)\<^sup>2 + (ay - by)\<^sup>2) < sqrt (r\<^sup>2)"
    by simp
  then show ?thesis using True by (simp add: closer_than_def del: real_sqrt_abs)
next
  case False
  have "0 \<le> sqrt ((ax - bx)\<^sup>2 + (ay - by)\<^sup>2)" by simp
  with False have "\<not> sqrt ((ax - bx)\<^sup>2 + (ay - by)\<^sup>2) < r" by linarith
  with False show ?thesis by (simp add: closer_than_def)
qed

lemma advance_flags [simp]:
  "isEaten (advance sp g) = isEaten g" "isDying (advance sp g) = isDying g"
  "isScared (advance sp g) = isScared g" "deathTimer (advance sp g) = deathTimer g"
  "speed (advance sp g) = speed g" "dir (advance sp g) = dir g"
  by (simp_all add: advance_def split: Direction.splits)

lemma ghost_choose_flags [simp]:
  "isEaten (ghost_choose s r g) = isEaten g" "isDying (ghost_choose s r g) = isDying g"
  "isScared (ghost_choose s r g) = isScared g" "deathTimer (ghost_choose s r g) = deathTimer g"
  "speed (ghost_choose s r g) = speed g"
  "pos_x (ghost_choose s r g) = pos_x g" "pos_y (ghost_choose s r g) = pos_y g"
  by (simp_all add: ghost_choose_def Let_def)

lemma ghost_move_flags [simp]:
  "isEaten (ghost_move g) = isEaten g" "isDying (ghost_move g) = isDying g"
  "isScared (ghost_move g) = isScared g" "deathTimer (ghost_move g) = deathTimer g"
  "speed (ghost_move g) = speed g"
  by (simp_all add: ghost_move_def Let_def)

subsection \<open>What each phase leaves unchanged\<close>

lemma fold_frame: "(\<And>i t. f (step i t) = f t) \<Longrightarrow> f (fold step xs s) = f s"
  by (induction xs arbitrary: s) simp_all

lemma fold_invariant: "P s \<Longrightarrow> (\<And>i t. P t \<Longrightarrow> P (step i t)) \<Longrightarrow> P (fold step xs s)"
  by (induction xs arbitrary: s) simp_all

lemma turn_frame [simp]:
  "gameState (turn s) = gameState s" "score (turn s) = score s" "lives (turn s) = lives s"
  "stage (turn s) = stage s" "countdown (turn s) = countdown s" "maze (turn s) = maze s"
  "ghosts (turn s) = ghosts s" "witches (turn s) = witches s" "powerMode (turn s) = powerMode s"
  "wallsLeft (turn s) = wallsLeft s" "totalPellets (turn s) = totalPellets s"
  "eatenPellets (turn s) = eatenPellets s" "queued (turn s) = queued s"
  by (simp_all add: turn_def Let_def)

lemma break_wall_frame [simp]:
  "gameState (break_wall s) = gameState s" "lives (break_wall s) = lives s"
  "stage (break_wall s) = stage s" "countdown (break_wall s) = countdown s"
  "pacman (break_wall s) = pacman s"
  "ghosts (break_wall s) = ghosts s" "witches (break_wall s) = witches s"
  "powerMode (break_wall s) = powerMode s" "totalPellets (break_wall s) = totalPellets s"
  "eatenPellets (break_wall s) = eatenPellets s" "queued (break_wall s) = queued s"
  by (simp_all add: break_wall_def Let_def)

lemma move_phase_frame [simp]:
  "gameState (move_phase s) = gameState s" "lives (move_phase s) = lives s"
  "stage (move_phase s) = stage s" "countdown (move_phase s) = countdown s"
  "ghosts (move_phase s) = ghosts s" "witches (move_phase s) = witches s"
  "powerMode (move_phase s) = powerMode s" "totalPellets (move_phase s) = totalPellets s"
  "eatenPellets (move_phase s) = eatenPellets s" "queued (move_phase s) = queued s"
  by (simp_all add: move_phase_def Let_def)

lemma resetPositions_frame [simp]:
  "gameState (resetPositions s) = gameState s" "score (resetPositions s) = score s"
  "lives (resetPositions s) = lives s" "stage (resetPositions s) = stage s"
  "countdown (resetPositions s) = countdown s" "maze (resetPositions s) = maze s"
  "witches (resetPositions s) = witches s" "powerMode (resetPositions s) = powerMode s"
  "wallsLeft (resetPositions s) = wallsLeft s" "totalPellets (resetPositions s) = totalPellets s"
  "eatenPellets (resetPositions s) = eatenPellets s"
  "length (ghosts (resetPositions s)) = length (ghosts s)"
  "queued (resetPositions s) = queued s"
  by (simp_all add: resetPositions_def)

lemma loseLife_frame [simp]:
  "score (loseLife s) = score s" "stage (loseLife s) = stage s"
  "countdown (loseLife s) = countdown s" "maze (loseLife s) = maze s"
  "witches (loseLife s) = witches s" "powerMode (loseLife s) = powerMode s"
  "wallsLeft (loseLife s) = wallsLeft s" "totalPellets (loseLife s) = totalPellets s"
  "eatenPellets (loseLife s) = eatenPellets s"
  "length (ghosts (loseLife s)) = length (ghosts s)" "queued (loseLife s) = queued s"
  by (simp_all add: loseLife_def)

lemma setLives_loseLife_frame [simp]:
  "gameState (setLives_loseLife s) = gameState s" "score (setLives_loseLife s) = score s"
  "lives (setLives_loseLife s) = lives s" "stage (setLives_loseLife s) = stage s"
  "countdown (setLives_loseLife s) = countdown s" "maze (setLives_loseLife s) = maze s"
  "pacman (setLives_loseLife s) = pacman s" "ghosts (setLives_loseLife s) = ghosts s"
  "witches (setLives_loseLife s) = witches s" "powerMode (setLives_loseLife s) = powerMode s"
  "wallsLeft (setLives_loseLife s) = wallsLeft s"
  "totalPellets (setLives_loseLife s) = totalPellets s"
  "eatenPellets (setLives_loseLife s) = eatenPellets s"
  "queued (setLives_loseLife s) = Suc (queued s)"
  by (simp_all add: setLives_loseLife_def)

lemma tile_phase_frame [simp]:
  "gameState (tile_phase inp pac s) = gameState s" "lives (tile_phase inp pac s) = lives s"
  "pacman (tile_phase inp pac s) = pacman s"
  "stage (tile_phase inp pac s) = stage s" "countdown (tile_phase inp pac s) = countdown s"
  "witches (tile_phase inp pac s) = witches s"
  "totalPellets (tile_phase inp pac s) = totalPellets s"
  "length (ghosts (tile_phase inp pac s)) = length (ghosts s)"
  by (simp_all add: tile_phase_def eat_candy_def hit_tombstone_def Let_def)

lemma power_phase_frame [simp]:
  "gameState (power_phase s) = gameState s" "score (power_phase s) = score s"
  "lives (power_phase s) = lives s" "stage (power_phase s) = stage s"
  "countdown (power_phase s) = countdown s" "maze (power_phase s) = maze s"
  "pacman (power_phase s) = pacman s" "witches (power_phase s) = witches s"
  "wallsLeft (power_phase s) = wallsLeft s" "totalPellets (power_phase s) = totalPellets s"
  "eatenPellets (power_phase s) = eatenPellets s"
  "length (ghosts (power_phase s)) = length (ghosts s)" "queued (power_phase s) = queued s"
  by (simp_all add: power_phase_def Let_def)

lemma ghost_collide_frame [simp]:
  "gameState (ghost_collide pac i s) = gameState s" "lives (ghost_collide pac i s) = lives s"
  "pacman (ghost_collide pac i s) = pacman s"
  "stage (ghost_collide pac i s) = stage s" "countdown (ghost_collide pac i s) = countdown s"
  "maze (ghost_collide pac i s) = maze s" "witches (ghost_collide pac i s) = witches s"
  "powerMode (ghost_collide pac i s) = powerMode s" "wallsLeft (ghost_collide pac i s) = wallsLeft s"
  "totalPellets (ghost_collide pac i s) = totalPellets s"
  "eatenPellets (ghost_collide pac i s) = eatenPellets s"
  "length (ghosts (ghost_collide pac i s)) = length (ghosts s)"
  by (simp_all add: ghost_collide_def Let_def)

lemma ghost_revive_frame [simp]:
  "gameState (ghost_revive r i s) = gameState s" "score (ghost_revive r i s) = score s"
  "lives (ghost_revive r i s) = lives s" "pacman (ghost_revive r i s) = pacman s"
  "stage (ghost_revive r i s) = stage s" "countdown (ghost_revive r i s) = countdown s"
  "maze (ghost_revive r i s) = maze s" "witches (ghost_revive r i s) = witches s"
  "powerMode (ghost_revive r i s) = powerMode s" "wallsLeft (ghost_revive r i s) = wallsLeft s"
  "totalPellets (ghost_revive r i s) = totalPellets s"
  "eatenPellets (ghost_revive r i s) = eatenPellets s"
  "length (ghosts (ghost_revive r i s)) = length (ghosts s)"
  "queued (ghost_revive r i s) = queued s"
  by (simp_all add: ghost_revive_def Let_def)

lemma ghost_step_frame [simp]:
  "gameState (ghost_step inp pac i s) = gameState s" "lives (ghost_step inp pac i s) = lives s"
  "pacman (ghost_step inp pac i s) = pacman s"
  "stage (ghost_step inp pac i s) = stage s" "countdown (ghost_step inp pac i s) = countdown s"
  "maze (ghost_step inp pac i s) = maze s" "witches (ghost_step inp pac i s) = witches s"
  "powerMode (ghost_step inp pac i s) = powerMode s" "wallsLeft (ghost_step inp pac i s) = wallsLeft s"
  "totalPellets (ghost_step inp pac i s) = totalPellets s"
  "eatenPellets (ghost_step inp pac i s) = eatenPellets s"
  "length (ghosts (ghost_step inp pac i s)) = length (ghosts s)"
  by (simp_all add: ghost_step_def Let_def)

lemma ghosts_phase_frame [simp]:
  "gameState (ghosts_phase inp pac s) = gameState s" "lives (ghosts_phase inp pac s) = lives s"
  "pacman (ghosts_phase inp pac s) = pacman s"
  "stage (ghosts_phase inp pac s) = stage s" "countdown (ghosts_phase inp pac s) = countdown s"
  "maze (ghosts_phase inp pac s) = maze s" "witches (ghosts_phase inp pac s) = witches s"
  "powerMode (ghosts_phase inp pac s) = powerMode s" "wallsLeft (ghosts_phase inp pac s) = wallsLeft s"
  "totalPellets (ghosts_phase inp pac s) = totalPellets s"
  "eatenPellets (ghosts_phase inp pac s) = eatenPellets s"
  "length (ghosts (ghosts_phase inp pac s)) = length (ghosts s)"
  unfolding ghosts_phase_def by (rule fold_frame, simp)+

lemma win_phase_frame [simp]:
  "score (win_phase s) = score s" "lives (win_phase s) = lives s"
  "stage (win_phase s) = stage s" "countdown (win_phase s) = countdown s"
  "maze (win_phase s) = maze s" "pacman (win_phase s) = pacman s"
  "ghosts (win_phase s) = ghosts s" "witches (win_phase s) = witches s"
  "powerMode (win_phase s) = powerMode s" "wallsLeft (win_phase s) = wallsLeft s"
  "totalPellets (win_phase s) = totalPellets s" "eatenPellets (win_phase s) = eatenPellets s"
  "queued (win_phase s) = queued s"
  by (simp_all add: win_phase_def)

lemma bonus_phase_frame [simp]:
  "gameState (bonus_phase d t s) = gameState s"
  "score (bonus_phase d t s) = score s" "lives (bonus_phase d t s) = lives s"
  "stage (bonus_phase d t s) = stage s" "countdown (bonus_phase d t s) = countdown s"
  "pacman (bonus_phase d t s) = pacman s"
  "ghosts (bonus_phase d t s) = ghosts s" "witches (bonus_phase d t s) = witches s"
  "powerMode (bonus_phase d t s) = powerMode s" "wallsLeft (bonus_phase d t s) = wallsLeft s"
  "totalPellets (bonus_phase d t s) = totalPellets s" "eatenPellets (bonus_phase d t s) = eatenPellets s"
  "queued (bonus_phase d t s) = queued s"
  "bonus_phase None t s = s"
  by (simp_all add: bonus_phase_def Let_def split: option.splits)

lemma witch_spawn_phase_frame [simp]:
  "gameState (witch_spawn_phase d s) = gameState s"
  "score (witch_spawn_phase d s) = score s" "lives (witch_spawn_phase d s) = lives s"
  "stage (witch_spawn_phase d s) = stage s" "countdown (witch_spawn_phase d s) = countdown s"
  "maze (witch_spawn_phase d s) = maze s" "pacman (witch_spawn_phase d s) = pacman s"
  "ghosts (witch_spawn_phase d s) = ghosts s"
  "powerMode (witch_spawn_phase d s) = powerMode s" "wallsLeft (witch_spawn_phase d s) = wallsLeft s"
  "totalPellets (witch_spawn_phase d s) = totalPellets s"
  "eatenPellets (witch_spawn_phase d s) = eatenPellets s"
  "queued (witch_spawn_phase d s) = queued s"
  "witch_spawn_phase None s = s"
  by (simp_all add: witch_spawn_phase_def split: option.splits prod.splits)

lemma witch_step_frame [simp]:
  "gameState (witch_step pac i s) = gameState s" "lives (witch_step pac i s) = lives s"
  "pacman (witch_step pac i s) = pacman s" "ghosts (witch_step pac i s) = ghosts s"
  "score (witch_step pac i s) = score s"
  "stage (witch_step pac i s) = stage s" "countdown (witch_step pac i s) = countdown s"
  "maze (witch_step pac i s) = maze s"
  "powerMode (witch_step pac i s) = powerMode s" "wallsLeft (witch_step pac i s) = wallsLeft s"
  "totalPellets (witch_step pac i s) = totalPellets s"
  "eatenPellets (witch_step pac i s) = eatenPellets s"
  "length (witches (witch_step pac i s)) = length (witches s)"
  by (simp_all add: witch_step_def Let_def)

lemma witches_phase_frame [simp]:
  "gameState (witches_phase pac s) = gameState s" "lives (witches_phase pac s) = lives s"
  "pacman (witches_phase pac s) = pacman s" "ghosts (witches_phase pac s) = ghosts s"
  "score (witches_phase pac s) = score s"
  "stage (witches_phase pac s) = stage s" "countdown (witches_phase pac s) = countdown s"
  "maze (witches_phase pac s) = maze s"
  "powerMode (witches_phase pac s) = powerMode s" "wallsLeft (witches_phase pac s) = wallsLeft s"
  "totalPellets (witches_phase pac s) = totalPellets s"
  "eatenPellets (witches_phase pac s) = eatenPellets s"
  unfolding witches_phase_def Let_def by (simp, rule fold_frame, simp)+

subsection \<open>Evaluating a tick\<close>

lemma update_playing:
  "gameState s = PLAYING \<Longrightarrow>
   update inp s =
     witches_phase (pacman (move_phase s))
       (witch_spawn_phase (witch_spawn inp)
         (bonus_phase (fruit_bonus inp) FRUIT
           (bonus_phase (candy_bonus inp) POWER_CANDY
             (win_phase
               (ghosts_phase inp (pacman (move_phase s))
                 (power_phase
                   (tile_phase inp (pacman (move_phase s))
                     (if out_of_bounds (pacman (move_phase s))
                      then resetPositions (move_phase s) else move_phase s))))))))"
  by (simp add: update_def Let_def)

lemma update_loops:
  "gameState s = PLAYING \<Longrightarrow>
   update inp s = witches_phase (pacman (move_phase s)) (before_witches inp s)"
  by (simp add: update_playing before_witches_def before_ghosts_def Let_def)

lemma update_idle: "gameState s \<noteq> PLAYING \<Longrightarrow> update inp s = s"
  by (simp add: update_def)

lemmas eval_defs = Let_def move_phase_def turn_def isAligned_def canMove_def
    box_maze_def cell_at_def nth_append advance_def break_wall_def wrap_def out_of_bounds_def tile_phase_def centre_cell_def
    power_phase_def start_ghost_def start_pacman_def ghost_choose_def ghost_move_def reverses_def
    ghost_collide_def closer_than_iff ghost_revive_def win_phase_def win_reached_def
    power2_eq_square no_draws_def

lemma witch_state_move: "move_phase witch_state = witch_state"
  by (simp add: witch_state_def demo_state_def eval_defs)

lemma witch_state_tile: "tile_phase no_draws start_pacman witch_state = witch_state"
  by (simp add: witch_state_def demo_state_def eval_defs)

lemma witch_state_power: "power_phase witch_state = witch_state\<lparr>powerMode := 299\<rparr>"
  by (simp add: witch_state_def demo_state_def eval_defs)

lemma witch_state_ghosts: "ghosts_phase no_draws start_pacman (witch_state\<lparr>powerMode := 299\<rparr>) =
   witch_state\<lparr>powerMode := 299, ghosts := map (\<lambda>g. g\<lparr>pos_y := 358\<rparr>) (map start_ghost [0,1,2,3])\<rparr>"
  unfolding ghosts_phase_def
  apply (simp add: witch_state_def demo_state_def upt_conv_Cons)
  apply (simp add: ghost_step_def eval_defs)
  done


lemma sin_drift_close:
  fixes t :: real
  shows "(2 - sin t * 3)\<^sup>2 \<le> 25"
proof -
  have "- 1 \<le> sin t" "sin t \<le> 1" by simp_all
  then have "\<bar>2 - sin t * 3\<bar> \<le> \<bar>5::real\<bar>" by linarith
  then have "(2 - sin t * 3)\<^sup>2 \<le> (5::real)\<^sup>2" by (simp only: abs_le_square_iff)
  then show ?thesis by simp
qed

lemma witch_state_witches: "queued (witches_phase start_pacman
     (witch_state\<lparr>powerMode := 299, ghosts := map (\<lambda>g. g\<lparr>pos_y := 358\<rparr>) (map start_ghost [0,1,2,3])\<rparr>)) = 1"
proof -
  have "closer_than (real_of_int TILE_SIZE * 0.7) 252 684 (250 + sin (1365 / 60 + 1) * 3) (1365 / 2)"
    using sin_drift_close [of "1365 / 60 + 1"]
    by (simp add: closer_than_iff power2_eq_square)
  then show ?thesis
    by (simp add: witches_phase_def witch_state_def demo_state_def witch_step_def Let_def
        start_pacman_def)
qed

lemma no_draws_sel:
  "candy_bonus no_draws = None" "fruit_bonus no_draws = None" "witch_spawn no_draws = None"
  by (simp_all add: no_draws_def)

lemma start_pacman_inside: "\<not> out_of_bounds start_pacman"
  by (simp add: out_of_bounds_def start_pacman_def)

subsection \<open>Maze cells and walls\<close>

lemma cell_at_set_cell:
  "cell_at (set_cell m y x v) gy gx =
     (if gy = y \<and> gx = x \<and> cell_at m y x \<noteq> None then Some v else cell_at m gy gx)"
proof (cases "cell_at m y x = None")
  case True
  then show ?thesis by (simp add: set_cell_def)
next
  case False
  then have r: "0 \<le> y" "y < int (length m)" "0 \<le> x" "x < int (length (m ! nat y))"
    by (auto simp: cell_at_def split: if_splits)
  show ?thesis
  proof (cases "gy = y")
    case True
    with r False show ?thesis
      by (auto simp: set_cell_def cell_at_def nth_list_update)
  next
    case False
    with r \<open>cell_at m y x \<noteq> None\<close> show ?thesis
      by (auto simp: set_cell_def cell_at_def nth_list_update)
  qed
qed

lemma cell_at_set_cell_None [simp]:
  "cell_at (set_cell m y x v) gy gx = None \<longleftrightarrow> cell_at m gy gx = None"
  by (simp add: cell_at_set_cell)

lemma walls_kept_refl [simp]: "walls_kept m m"
  by (simp add: walls_kept_def)

lemma walls_kept_trans: "walls_kept a b \<Longrightarrow> walls_kept b c \<Longrightarrow> walls_kept a c"
  by (simp add: walls_kept_def)

lemma walls_kept_set_cell:
  "cell_at m y x \<noteq> Some WALL \<Longrightarrow> walls_kept m (set_cell m y x v)"
  by (auto simp: walls_kept_def cell_at_set_cell)


lemma respawn_loop_walls_kept: "walls_kept m (fst (respawn_loop draws m r a))"
proof (induction draws m r a rule: respawn_loop.induct)
  case (1 draws m respawned attempts)
  show ?case
  proof (cases "\<not> respawned \<and> attempts < 100")
    case False
    then have "respawn_loop draws m respawned attempts = (m, respawned, attempts)"
      by auto
    then show ?thesis by simp
  next
    case True
    let ?rx = "fst (rand_cell (draws attempts))" and ?ry = "snd (rand_cell (draws attempts))"
    show ?thesis
    proof (cases "cell_at m ?ry ?rx = Some PELLET \<or> cell_at m ?ry ?rx = Some EMPTY")
      case hit: True
      then have "walls_kept m (set_cell m ?ry ?rx POWER_CANDY)"
        by (auto intro: walls_kept_set_cell)
      moreover have "walls_kept (set_cell m ?ry ?rx POWER_CANDY)
          (fst (respawn_loop draws (set_cell m ?ry ?rx POWER_CANDY) True (attempts + 1)))"
        using "1.IH"(1) [OF True refl refl hit] .
      ultimately have "walls_kept m
          (fst (respawn_loop draws (set_cell m ?ry ?rx POWER_CANDY) True (attempts + 1)))"
        by (rule walls_kept_trans)
      then show ?thesis
        using True hit
        by (simp add: respawn_loop.simps [of draws m respawned attempts] Let_def)
    next
      case miss: False
      have "walls_kept m (fst (respawn_loop draws m respawned (attempts + 1)))"
        using "1.IH"(2) [OF True refl refl miss] .
      then show ?thesis
        using True miss by (simp add: respawn_loop.simps [of draws m respawned attempts] Let_def)
    qed
  qed
qed

lemma tile_phase_walls_kept: "walls_kept (maze s) (maze (tile_phase inp pac s))"
proof -
  let ?gy = "centre_cell (pos_y pac)" and ?gx = "centre_cell (pos_x pac)"
  let ?m1 = "set_cell (maze s) ?gy ?gx EMPTY"
  have loop: "walls_kept ?m1 (fst (respawn_loop (respawn_draws inp) ?m1 False 0))"
    by (rule respawn_loop_walls_kept)
  consider (pellet) "cell_at (maze s) ?gy ?gx = Some PELLET"
    | (candy) "cell_at (maze s) ?gy ?gx = Some POWER_CANDY"
    | (tomb) "cell_at (maze s) ?gy ?gx = Some TOMBSTONE"
    | (fruit) "cell_at (maze s) ?gy ?gx = Some FRUIT"
    | (other) "cell_at (maze s) ?gy ?gx \<notin> {Some PELLET, Some POWER_CANDY, Some TOMBSTONE, Some FRUIT}"
    by blast
  then show ?thesis
  proof cases
    case pellet
    then show ?thesis by (simp add: tile_phase_def Let_def walls_kept_set_cell)
  next
    case candy
    then have "walls_kept (maze s) ?m1" by (simp add: walls_kept_set_cell)
    with loop have "walls_kept (maze s) (fst (respawn_loop (respawn_draws inp) ?m1 False 0))"
      by (rule walls_kept_trans [rotated])
    with candy show ?thesis by (simp add: tile_phase_def eat_candy_def Let_def)
  next
    case tomb
    then show ?thesis by (simp add: tile_phase_def hit_tombstone_def Let_def walls_kept_set_cell)
  next
    case fruit
    then show ?thesis by (simp add: tile_phase_def Let_def walls_kept_set_cell)
  next
    case other
    then show ?thesis by (simp add: tile_phase_def Let_def)
  qed
qed

lemma bonus_phase_walls_kept: "walls_kept (maze s) (maze (bonus_phase d t s))"
  by (auto simp: bonus_phase_def Let_def split: option.splits intro!: walls_kept_set_cell)

lemma break_wall_maze:
  "\<not> (powerMode s > 0 \<and> wallsLeft s > 0) \<Longrightarrow> break_wall s = s"
  by (auto simp: break_wall_def)

lemma move_phase_maze:
  "\<not> (powerMode s > 0 \<and> wallsLeft s > 0) \<Longrightarrow> maze (move_phase s) = maze s"
  by (simp add: move_phase_def break_wall_maze Let_def)

lemma update_walls_kept:
  assumes "\<not> (powerMode s > 0 \<and> wallsLeft s > 0)"
  shows "walls_kept (maze s) (maze (update inp s))"
proof (cases "gameState s = PLAYING")
  case False
  then show ?thesis by (simp add: update_def)
next
  case True
  let ?s2 = "if out_of_bounds (pacman (move_phase s)) then resetPositions (move_phase s)
             else move_phase s"
  let ?t = "tile_phase inp (pacman (move_phase s)) ?s2"
  let ?w = "win_phase (ghosts_phase inp (pacman (move_phase s)) (power_phase ?t))"
  let ?b = "bonus_phase (candy_bonus inp) POWER_CANDY ?w"
  have "maze ?s2 = maze s" using assms by (simp add: move_phase_maze)
  then have "walls_kept (maze s) (maze ?t)"
    using tile_phase_walls_kept [of ?s2 inp "pacman (move_phase s)"] by simp
  then have "walls_kept (maze s) (maze ?w)" by simp
  then have "walls_kept (maze s) (maze ?b)"
    using bonus_phase_walls_kept [of ?w] walls_kept_trans by blast
  then have "walls_kept (maze s) (maze (bonus_phase (fruit_bonus inp) FRUIT ?b))"
    using bonus_phase_walls_kept [of ?b] walls_kept_trans by blast
  then show ?thesis using True by (simp add: update_playing)
qed

subsection \<open>The queue of life-loss updaters\<close>

lemma fold_mono:
  fixes f :: "'a \<Rightarrow> nat"
  shows "(\<And>i t. f t \<le> f (step i t)) \<Longrightarrow> f s \<le> f (fold step xs s)"
proof (induction xs arbitrary: s)
  case Nil
  show ?case by simp
next
  case (Cons x xs)
  have "f s \<le> f (step x s)" by (rule Cons.prems)
  also have "\<dots> \<le> f (fold step xs (step x s))" by (rule Cons.IH) (rule Cons.prems)
  finally show ?case by simp
qed

lemma fold_frame_on:
  "(\<And>i t. i \<in> set xs \<Longrightarrow> f (step i t) = f t) \<Longrightarrow> f (fold step xs s) = f s"
  by (induction xs arbitrary: s) simp_all

lemma upt_split: "i < n \<Longrightarrow> [0..<n] = [0..<i] @ i # [Suc i..<n]"
  by (metis le0 upt_add_eq_append upt_conv_Cons le_add_diff_inverse less_imp_le_nat)

lemma tile_phase_queued: "queued s \<le> queued (tile_phase inp pac s)"
  by (simp add: tile_phase_def eat_candy_def hit_tombstone_def Let_def)

lemma ghost_step_queued: "queued s \<le> queued (ghost_step inp pac i s)"
  by (simp add: ghost_step_def ghost_collide_def Let_def)

lemma ghosts_phase_queued: "queued s \<le> queued (ghosts_phase inp pac s)"
  unfolding ghosts_phase_def by (rule fold_mono) (rule ghost_step_queued)

lemma witch_step_queued: "queued s \<le> queued (witch_step pac i s)"
  by (simp add: witch_step_def Let_def)

lemma witches_phase_queued: "queued s \<le> queued (witches_phase pac s)"
proof -
  have "queued s \<le> queued (fold (witch_step pac) [0..<length (witches s)] s)"
    by (rule fold_mono) (rule witch_step_queued)
  then show ?thesis by (simp add: witches_phase_def Let_def)
qed

lemma before_ghosts_frame [simp]:
  "gameState (before_ghosts inp s) = gameState s" "lives (before_ghosts inp s) = lives s"
  "stage (before_ghosts inp s) = stage s" "countdown (before_ghosts inp s) = countdown s"
  "witches (before_ghosts inp s) = witches s"
  "totalPellets (before_ghosts inp s) = totalPellets s"
  "length (ghosts (before_ghosts inp s)) = length (ghosts s)"
  by (simp_all add: before_ghosts_def Let_def)

lemma before_ghosts_pacman:
  "\<not> out_of_bounds (pacman (move_phase s)) \<Longrightarrow>
     pacman (before_ghosts inp s) = pacman (move_phase s)"
  by (simp add: before_ghosts_def Let_def)

lemma before_ghosts_queued: "queued s \<le> queued (before_ghosts inp s)"
proof -
  have "queued t \<le> queued (power_phase (tile_phase inp pac t))" for pac t
    by (simp add: tile_phase_queued)
  from this [of "resetPositions (move_phase s)" "pacman (move_phase s)"]
    this [of "move_phase s" "pacman (move_phase s)"]
  show ?thesis by (simp add: before_ghosts_def Let_def)
qed

lemma before_witches_frame [simp]:
  "lives (before_witches inp s) = lives s"
  "stage (before_witches inp s) = stage s" "countdown (before_witches inp s) = countdown s"
  "totalPellets (before_witches inp s) = totalPellets s"
  "eatenPellets (before_witches inp s) = eatenPellets (before_ghosts inp s)"
  "powerMode (before_witches inp s) = powerMode (before_ghosts inp s)"
  "wallsLeft (before_witches inp s) = wallsLeft (before_ghosts inp s)"
  "pacman (before_witches inp s) = pacman (before_ghosts inp s)"
  "length (ghosts (before_witches inp s)) = length (ghosts s)"
  "ghosts (before_witches inp s)
     = ghosts (ghosts_phase inp (pacman (move_phase s)) (before_ghosts inp s))"
  "queued (before_witches inp s)
     = queued (ghosts_phase inp (pacman (move_phase s)) (before_ghosts inp s))"
  by (simp_all add: before_witches_def)

lemma before_witches_queued: "queued (before_ghosts inp s) \<le> queued (before_witches inp s)"
  by (simp add: ghosts_phase_queued)

lemma update_lives [simp]: "lives (update inp s) = lives s"
  by (cases "gameState s = PLAYING") (simp_all add: update_loops update_idle)

lemma update_queued: "queued s \<le> queued (update inp s)"
proof (cases "gameState s = PLAYING")
  case True
  have "queued s \<le> queued (before_ghosts inp s)" by (rule before_ghosts_queued)
  also have "\<dots> \<le> queued (before_witches inp s)" by (rule before_witches_queued)
  also have "\<dots> \<le> queued (witches_phase (pacman (move_phase s)) (before_witches inp s))"
    by (rule witches_phase_queued)
  finally show ?thesis using True by (simp add: update_loops)
next
  case False
  then show ?thesis by (simp add: update_idle)
qed

lemma update_positions:
  assumes "gameState s = PLAYING"
  shows "pacman (update inp s) = pacman (before_ghosts inp s)"
    "ghosts (update inp s) = ghosts (ghosts_phase inp (pacman (move_phase s)) (before_ghosts inp s))"
  using assms by (simp_all add: update_loops)

lemma update_gameState:
  "gameState s = PLAYING \<Longrightarrow>
   gameState (update inp s) =
     (if win_reached (eatenPellets (before_ghosts inp s)) (totalPellets s) then WON else PLAYING)"
  by (simp add: update_loops before_witches_def win_phase_def)

text \<open>A ghost's step changes no other ghost, and depends on no other ghost.\<close>

lemma canMove_cong:
  "maze u = maze t \<Longrightarrow> powerMode u = powerMode t \<Longrightarrow> wallsLeft u = wallsLeft t \<Longrightarrow>
     canMove u x y d = canMove t x y d"
  by (simp add: canMove_def)

lemma ghost_choose_cong:
  "maze u = maze t \<Longrightarrow> powerMode u = powerMode t \<Longrightarrow> wallsLeft u = wallsLeft t \<Longrightarrow>
     ghost_choose u r g = ghost_choose t r g"
  by (simp add: ghost_choose_def canMove_cong [of u t] cong: if_cong)

lemma ghost_step_other: "j \<noteq> i \<Longrightarrow> ghosts (ghost_step inp pac i s) ! j = ghosts s ! j"
  by (simp add: ghost_step_def ghost_collide_def ghost_revive_def Let_def)

lemma ghost_step_bite:
  assumes "i < length (ghosts u)"
    and "g = ghost_move (ghost_choose u (ghost_dir_draw inp i) (ghosts u ! i))"
    and "\<not> isScared g" "\<not> isEaten g" "\<not> isDying g"
    and "closer_than (real_of_int TILE_SIZE * 0.8)
           (real_of_int (pos_x pac)) (real_of_int (pos_y pac))
           (real_of_int (pos_x g)) (real_of_int (pos_y g))"
  shows "queued (ghost_step inp pac i u) = Suc (queued u)"
  using assms by (simp add: ghost_step_def ghost_collide_def Let_def)

lemma ghosts_phase_bite:
  assumes i: "i < length (ghosts t)"
    and g: "g = ghost_move (ghost_choose t (ghost_dir_draw inp i) (ghosts t ! i))"
    and flags: "\<not> isScared g" "\<not> isEaten g" "\<not> isDying g"
    and close: "closer_than (real_of_int TILE_SIZE * 0.8)
           (real_of_int (pos_x pac)) (real_of_int (pos_y pac))
           (real_of_int (pos_x g)) (real_of_int (pos_y g))"
  shows "queued t < queued (ghosts_phase inp pac t)"
proof -
  let ?u = "fold (ghost_step inp pac) [0..<i] t"
  have same: "maze ?u = maze t" "powerMode ?u = powerMode t" "wallsLeft ?u = wallsLeft t"
    "length (ghosts ?u) = length (ghosts t)"
    by (rule fold_frame, simp)+
  have "ghosts ?u ! i = ghosts t ! i"
    by (rule fold_frame_on [where f = "\<lambda>t. ghosts t ! i"]) (simp add: ghost_step_other)
  with g same have "g = ghost_move (ghost_choose ?u (ghost_dir_draw inp i) (ghosts ?u ! i))"
    by (simp add: ghost_choose_cong [of ?u t])
  with i same flags close have "queued (ghost_step inp pac i ?u) = Suc (queued ?u)"
    by (intro ghost_step_bite [where g = g]) simp_all
  moreover have "queued t \<le> queued ?u"
    by (rule fold_mono) (rule ghost_step_queued)
  moreover have "queued (ghost_step inp pac i ?u)
      \<le> queued (fold (ghost_step inp pac) [Suc i..<length (ghosts t)] (ghost_step inp pac i ?u))"
    by (rule fold_mono) (rule ghost_step_queued)
  ultimately show ?thesis
    using i by (simp add: ghosts_phase_def upt_split [of i "length (ghosts t)"])
qed

lemma witch_step_other: "j \<noteq> i \<Longrightarrow> witches (witch_step pac i s) ! j = witches s ! j"
  by (simp add: witch_step_def Let_def)

lemma witches_phase_hit:
  assumes j: "j < length (witches t)"
    and w: "w = witches t ! j" "active w"
    and close: "closer_than (real_of_int TILE_SIZE * 0.7)
           (real_of_int (pos_x pac)) (real_of_int (pos_y pac))
           (wx w + sin ((wy w + wspeed w) / 30 + phase w) * 3) (wy w + wspeed w)"
  shows "queued t < queued (witches_phase pac t)"
proof -
  let ?u = "fold (witch_step pac) [0..<j] t"
  have len: "length (witches ?u) = length (witches t)"
    by (rule fold_frame) simp
  have "witches ?u ! j = witches t ! j"
    by (rule fold_frame_on [where f = "\<lambda>t. witches t ! j"]) (simp add: witch_step_other)
  with w close have "queued (witch_step pac j ?u) = Suc (queued ?u)"
    by (simp add: witch_step_def Let_def)
  moreover have "queued t \<le> queued ?u"
    by (rule fold_mono) (rule witch_step_queued)
  moreover have "queued (witch_step pac j ?u)
      \<le> queued (fold (witch_step pac) [Suc j..<length (witches t)] (witch_step pac j ?u))"
    by (rule fold_mono) (rule witch_step_queued)
  ultimately show ?thesis
    using j by (simp add: witches_phase_def Let_def upt_split [of j "length (witches t)"])
qed

subsection \<open>The render after a tick\<close>

lemma funpow_frame: "(\<And>t. f (g t) = f t) \<Longrightarrow> f ((g ^^ n) s) = f s"
  by (induction n) simp_all

lemma render_frame [simp]:
  "score (render s) = score s" "stage (render s) = stage s"
  "countdown (render s) = countdown s" "maze (render s) = maze s"
  "witches (render s) = witches s" "powerMode (render s) = powerMode s"
  "wallsLeft (render s) = wallsLeft s" "totalPellets (render s) = totalPellets s"
  "eatenPellets (render s) = eatenPellets s"
  "length (ghosts (render s)) = length (ghosts s)" "queued (render s) = 0"
proof -
  show "length (ghosts (render s)) = length (ghosts s)"
    using funpow_frame [where f = "\<lambda>t. length (ghosts t)" and g = loseLife and s = s]
    by (simp add: render_def)
qed (simp_all add: render_def funpow_frame)

lemma render_none: "queued s = 0 \<Longrightarrow> render s = s"
  by (simp add: render_def)

lemma resetGhost_idem: "resetGhost i (resetGhost i g) = resetGhost i g"
  by (simp add: resetGhost_def)

lemma resetPositions_idem: "resetPositions (resetPositions s) = resetPositions s"
proof -
  have "map (\<lambda>(i, g). resetGhost i g) (enumerate 0 (map (\<lambda>(i, g). resetGhost i g) (enumerate 0 gs)))
      = map (\<lambda>(i, g). resetGhost i g) (enumerate 0 gs)" for gs :: "GhostEntity list"
    by (rule nth_equalityI) (simp_all add: nth_enumerate_eq resetGhost_idem)
  then show ?thesis by (simp add: resetPositions_def)
qed

lemma loseLife_funpow_last:
  "lives s \<le> 1 \<Longrightarrow> (loseLife ^^ Suc n) s = s\<lparr>gameState := GAMEOVER, lives := 0\<rparr>"
  by (induction n) (simp_all add: loseLife_def)

lemma loseLife_after_reset:
  assumes "1 < l"
  shows "loseLife ((resetPositions s)\<lparr>lives := l, gameState := b\<rparr>)
           = (resetPositions s)\<lparr>lives := l - 1, gameState := b\<rparr>"
proof -
  have "resetPositions (t\<lparr>lives := a, gameState := c\<rparr>) = (resetPositions t)\<lparr>lives := a, gameState := c\<rparr>"
    for t a c
    by (simp add: resetPositions_def)
  then have "resetPositions ((resetPositions s)\<lparr>lives := l, gameState := b\<rparr>)
               = (resetPositions s)\<lparr>lives := l, gameState := b\<rparr>"
    by (simp only: resetPositions_idem)
  with assms show ?thesis by (simp add: loseLife_def)
qed

lemma loseLife_funpow_more:
  "1 < lives s \<Longrightarrow>
     (loseLife ^^ Suc n) s =
       (resetPositions s)\<lparr>lives := max 0 (lives s - int (Suc n)),
          gameState := (if lives s \<le> int (Suc n) then GAMEOVER else gameState s)\<rparr>"
proof (induction n)
  case 0
  then show ?case by (simp add: loseLife_def)
next
  case (Suc n)
  let ?l = "lives s - int (Suc n)"
  have step: "(loseLife ^^ Suc (Suc n)) s =
      loseLife ((resetPositions s)\<lparr>lives := max 0 ?l,
          gameState := (if lives s \<le> int (Suc n) then GAMEOVER else gameState s)\<rparr>)"
    using Suc by simp
  show ?case
  proof (cases "?l \<le> 1")
    case True
    then show ?thesis unfolding step by (simp add: loseLife_def)
  next
    case False
    then have m: "max 0 ?l = ?l" "\<not> lives s \<le> int (Suc n)" "1 < ?l" by simp_all
    have "(loseLife ^^ Suc (Suc n)) s = (resetPositions s)\<lparr>lives := ?l - 1, gameState := gameState s\<rparr>"
      unfolding step using loseLife_after_reset [OF m(3), where s = s and b = "gameState s"]
      by (simp only: m if_False)
    with False show ?thesis by simp
  qed
qed

lemma render_last:
  assumes "lives s \<le> 1" "0 < queued s"
  shows "render s = s\<lparr>gameState := GAMEOVER, lives := 0, queued := 0\<rparr>"
proof -
  from assms(2) obtain n where "queued s = Suc n" by (cases "queued s") simp_all
  with loseLife_funpow_last [OF assms(1), of n] show ?thesis by (simp add: render_def)
qed

lemma render_more:
  assumes "1 < lives s" "0 < queued s"
  shows "render s =
     (resetPositions s)\<lparr>lives := max 0 (lives s - int (queued s)),
        gameState := (if lives s \<le> int (queued s) then GAMEOVER else gameState s),
        queued := 0\<rparr>"
proof -
  from assms(2) obtain n where "queued s = Suc n" by (cases "queued s") simp_all
  with loseLife_funpow_more [OF assms(1), of n] show ?thesis by (simp add: render_def)
qed

lemma render_still_playing: "gameState (render s) = PLAYING \<Longrightarrow> gameState s = PLAYING"
proof (cases "queued s = 0")
  case True
  then show "gameState (render s) = PLAYING \<Longrightarrow> ?thesis" by (simp add: render_none)
next
  case False
  assume p: "gameState (render s) = PLAYING"
  show ?thesis
  proof (cases "lives s \<le> 1")
    case True
    with False p show ?thesis by (simp add: render_last)
  next
    case more: False
    with False p show ?thesis by (simp add: render_more split: if_splits)
  qed
qed

lemma tomb_state_move:
  "move_phase (tomb_state l) =
     (tomb_state l)\<lparr>pacman := start_pacman\<lparr>pos_x := 236, dir := RIGHT\<rparr>\<rparr>"
  by (simp add: tomb_state_def demo_state_def set_cell_def nth_list_update eval_defs)

lemma tomb_state_cell: "cell_at (set_cell box_maze 19 7 TOMBSTONE) 19 7 = Some TOMBSTONE"
  by (simp add: cell_at_set_cell) (simp add: cell_at_def box_maze_def nth_append)

subsection \<open>The maze generator\<close>

lemma carved_refl [simp]: "carved m m"
  by (simp add: carved_def)

lemma carved_trans: "carved a b \<Longrightarrow> carved b c \<Longrightarrow> carved a c"
  unfolding carved_def by metis

lemma carved_set_cell: "interior y x \<Longrightarrow> carved m (set_cell m y x EMPTY)"
  by (auto simp: carved_def cell_at_set_cell)

lemma interior_midpoint:
  "interior y x \<Longrightarrow> interior (y + dy) (x + dx) \<Longrightarrow> interior (y + dy div 2) (x + dx div 2)"
  unfolding interior_def by presburger

lemma walk_carved:
  "walk n rs x y g = Some g' \<Longrightarrow> interior y x \<Longrightarrow> carved (fst g) (fst g')"
  "walk_dirs n rs x y ds g = Some g' \<Longrightarrow> interior y x \<Longrightarrow> carved (fst g) (fst g')"
proof (induction n rs x y g and n rs x y ds g arbitrary: g' and g' rule: walk_walk_dirs.induct)
  case (1 rs x y g)
  then show ?case by simp
next
  case (2 n rs x y m k)
  from "2.prems" have "carved (set_cell m y x EMPTY) (fst g')"
    using "2.IH" by simp
  with carved_set_cell [OF "2.prems"(2), of m] show ?case
    by (auto intro: carved_trans)
next
  case (3 n rs x y g)
  then show ?case by simp
next
  case (4 n rs x y dx dy ds m k)
  let ?c = "unvisited m (x + dx) (y + dy)"
  let ?m2 = "set_cell m (y + dy div 2) (x + dx div 2) EMPTY"
  show ?case
  proof (cases ?c)
    case False
    with "4.prems" have "walk_dirs n rs x y ds (m, k) = Some g'"
      by (simp add: Let_def)
    with "4.IH"(3) [OF refl refl False] "4.prems"(2) show ?thesis by simp
  next
    case True
    then have inner: "interior (y + dy) (x + dx)" by (simp add: interior_def unvisited_def)
    from True "4.prems" obtain g1 where
      w: "walk n rs (x + dx) (y + dy) (?m2, k) = Some g1" and
      d: "walk_dirs n rs x y ds g1 = Some g'"
      by (auto simp: Let_def split: option.splits)
    have "carved m ?m2"
      using interior_midpoint [OF "4.prems"(2) inner] by (rule carved_set_cell)
    moreover have "carved ?m2 (fst g1)"
      using "4.IH"(1) [OF refl refl True w inner] by simp
    moreover have "carved (fst g1) (fst g')"
      using "4.IH"(2) [OF refl refl True w d "4.prems"(2)] .
    ultimately show ?thesis by (auto intro: carved_trans)
  qed
qed







lemma carved_defined: "carved m m' \<Longrightarrow> cell_at m' gy gx = None \<longleftrightarrow> cell_at m gy gx = None"
  unfolding carved_def by (metis option.distinct(1))



lemma in_all_cells:
  "(gy, gx) \<in> set all_cells \<longleftrightarrow> 0 \<le> gy \<and> gy < GRID_HEIGHT \<and> 0 \<le> gx \<and> gx < GRID_WIDTH"
proof -
  have "int ` {0..<21} = {0..<21}" "int ` {0..<15} = {0..<15}"
    using image_int_atLeastLessThan [of 0 21] image_int_atLeastLessThan [of 0 15] by simp_all
  then show ?thesis by (auto simp: all_cells_def)
qed

lemma in_border_cells:
  "(gy, gx) \<in> set border_cells \<longleftrightarrow>
     0 \<le> gy \<and> gy < GRID_HEIGHT \<and> 0 \<le> gx \<and> gx < GRID_WIDTH \<and> \<not> interior gy gx"
  by (auto simp: border_cells_def in_all_cells interior_def)

lemma border_walled_iff:
  "border_walled m \<longleftrightarrow>
     (\<forall>gy gx. 0 \<le> gy \<and> gy < GRID_HEIGHT \<and> 0 \<le> gx \<and> gx < GRID_WIDTH \<and> \<not> interior gy gx
        \<longrightarrow> cell_at m gy gx = Some WALL)"
  by (auto simp: border_walled_def list_all_iff in_border_cells)

lemma walls_kept_border: "walls_kept m m' \<Longrightarrow> border_walled m \<Longrightarrow> border_walled m'"
  by (simp add: border_walled_iff walls_kept_def)

lemma cell_at_all_walls:
  "cell_at all_walls gy gx =
     (if 0 \<le> gy \<and> gy < GRID_HEIGHT \<and> 0 \<le> gx \<and> gx < GRID_WIDTH then Some WALL else None)"
  by (auto simp: cell_at_def all_walls_def)

lemma cell_at_fill_pellets:
  "cell_at (fill_pellets m) gy gx =
     map_option (\<lambda>c. if c = EMPTY then PELLET else c) (cell_at m gy gx)"
  by (auto simp: cell_at_def fill_pellets_def)

lemma carve_house_unfold:
  "carve_house m =
     set_cell (set_cell (set_cell (set_cell (set_cell (set_cell (set_cell (set_cell (set_cell
       (set_cell m 9 6 EMPTY) 9 7 EMPTY) 9 8 EMPTY) 10 6 EMPTY) 10 7 EMPTY) 10 8 EMPTY)
       11 6 EMPTY) 11 7 EMPTY) 11 8 EMPTY) 10 7 GHOST_SPAWN"
  by (simp add: carve_house_def)

lemma set_cell_outside:
  "interior y x \<Longrightarrow> \<not> interior gy gx \<Longrightarrow> cell_at (set_cell m y x v) gy gx = cell_at m gy gx"
  by (auto simp: cell_at_set_cell)

lemma house_interior:
  "interior 9 6" "interior 9 7" "interior 9 8" "interior 10 6" "interior 10 7" "interior 10 8"
  "interior 11 6" "interior 11 7" "interior 11 8"
  by (simp_all add: interior_def)

lemma carve_house_border:
  "\<not> interior gy gx \<Longrightarrow> cell_at (carve_house m) gy gx = cell_at m gy gx"
  by (simp add: carve_house_unfold set_cell_outside house_interior)

lemma carve_house_corner:
  "cell_at m 9 6 \<noteq> None \<Longrightarrow> cell_at (carve_house m) 9 6 = Some EMPTY"
  by (simp add: carve_house_unfold cell_at_set_cell)


lemma generateMaze_shape:
  assumes "generateMaze rs = Some m"
  shows "border_walled m" and "cell_at m 9 6 = Some PELLET"
proof -
  from assms obtain m0 k where
    w: "walk (nat (GRID_WIDTH * GRID_HEIGHT)) rs 1 1 (all_walls, 0) = Some (m0, k)" and
    m: "m = set_cell (fill_pellets (carve_house m0)) (GRID_HEIGHT - 2) (GRID_WIDTH div 2) PLAYER_SPAWN"
    by (auto simp: generateMaze_def split: option.splits)
  have "interior 1 1" by (simp add: interior_def)
  from walk_carved(1) [OF w this] have c: "carved all_walls m0" by simp
  show "border_walled m"
    unfolding border_walled_iff
  proof (intro allI impI)
    fix gy gx
    assume b: "0 \<le> gy \<and> gy < GRID_HEIGHT \<and> 0 \<le> gx \<and> gx < GRID_WIDTH \<and> \<not> interior gy gx"
    with c have "cell_at m0 gy gx = Some WALL"
      unfolding carved_def by (metis cell_at_all_walls)
    with b have "cell_at (fill_pellets (carve_house m0)) gy gx = Some WALL"
      by (simp add: cell_at_fill_pellets carve_house_border)
    moreover from b have "\<not> (gy = GRID_HEIGHT - 2 \<and> gx = GRID_WIDTH div 2)"
      by (auto simp: interior_def)
    ultimately show "cell_at m gy gx = Some WALL"
      by (auto simp: m cell_at_set_cell)
  qed
  have "cell_at m0 9 6 \<noteq> None"
    using carved_defined [OF c, of 9 6] by (simp add: cell_at_all_walls)
  then have "cell_at (fill_pellets (carve_house m0)) 9 6 = Some PELLET"
    by (simp add: cell_at_fill_pellets carve_house_corner)
  then show "cell_at m 9 6 = Some PELLET"
    by (simp add: m cell_at_set_cell)
qed

lemma count_pellets_positive:
  assumes c: "cell_at m 9 6 = Some PELLET"
  shows "1 \<le> count_pellets m"
proof -
  let ?P = "\<lambda>p. case p of (y, x) \<Rightarrow> cell_at m y x = Some PELLET \<or> cell_at m y x = Some POWER_CANDY"
  have a: "(9, 6) \<in> set all_cells" by (simp only: in_all_cells) simp
  have "?P (9, 6)" using c by simp
  with a have "(9, 6) \<in> set (filter ?P all_cells)"
    by (simp only: set_filter mem_Collect_eq)
  then have "filter ?P all_cells \<noteq> []" by (metis empty_iff empty_set)
  then have "0 < length (filter ?P all_cells)" by blast
  then show ?thesis unfolding count_pellets_def by linarith
qed

lemma find_start_walls_kept: "walls_kept m (snd (find_start m))"
proof -
  have "walls_kept m (snd (fold (\<lambda>(y, x) (p, a). if cell_at a y x = Some PLAYER_SPAWN
                            then ((x, y), set_cell a y x EMPTY) else (p, a)) cs (p0, m0)))"
    if "walls_kept m m0" for cs p0 m0
    using that
  proof (induction cs arbitrary: p0 m0)
    case Nil
    then show ?case by simp
  next
    case (Cons c cs)
    obtain y x where c: "c = (y, x)" by (cases c)
    show ?case
    proof (cases "cell_at m0 y x = Some PLAYER_SPAWN")
      case True
      then have "walls_kept m0 (set_cell m0 y x EMPTY)" by (simp add: walls_kept_set_cell)
      with Cons.prems have "walls_kept m (set_cell m0 y x EMPTY)" by (rule walls_kept_trans)
      from Cons.IH [OF this] True show ?thesis by (simp add: c)
    next
      case False
      with Cons.IH [OF Cons.prems] show ?thesis by (simp add: c)
    qed
  qed
  then show ?thesis by (simp add: find_start_def)
qed

lemma place_candies_walls_kept:
  assumes "place_candies draws k m placed = Some m'"
  shows "walls_kept m m'"
proof (rule place_candies.raw_induct [where P = "\<lambda>draws k m placed m'. walls_kept m m'"])
  show "place_candies draws k m placed = Some m'" by fact
next
  fix place :: "(nat \<Rightarrow> nat \<times> nat) \<Rightarrow> nat \<Rightarrow> Maze \<Rightarrow> nat \<Rightarrow> Maze option"
    and draws :: "nat \<Rightarrow> nat \<times> nat" and k :: nat and m :: Maze and placed :: nat and res :: Maze
  assume IH: "\<And>a b c d y. place a b c d = Some y \<Longrightarrow> walls_kept c y"
  let ?ry = "snd (rand_cell (draws k))" and ?rx = "fst (rand_cell (draws k))"
  assume step: "(if placed < 10 then
        (if cell_at m ?ry ?rx = Some PELLET
         then place draws (k + 1) (set_cell m ?ry ?rx POWER_CANDY) (placed + 1)
         else place draws (k + 1) m placed)
      else Some m) = Some res"
  show "walls_kept m res"
  proof (cases "placed < 10")
    case False
    with step show ?thesis by simp
  next
    case True
    show ?thesis
    proof (cases "cell_at m ?ry ?rx = Some PELLET")
      case hit: True
      with True step have "place draws (k + 1) (set_cell m ?ry ?rx POWER_CANDY) (placed + 1) = Some res"
        by simp
      then have "walls_kept (set_cell m ?ry ?rx POWER_CANDY) res" by (rule IH)
      moreover from hit have "walls_kept m (set_cell m ?ry ?rx POWER_CANDY)"
        by (simp add: walls_kept_set_cell)
      ultimately show ?thesis by (rule walls_kept_trans [rotated])
    next
      case False
      with True step have "place draws (k + 1) m placed = Some res" by simp
      then show ?thesis by (rule IH)
    qed
  qed
qed

lemma place_tombstones_walls_kept:
  assumes "place_tombstones draws k m tombstones = Some m'"
  shows "walls_kept m m'"
proof (rule place_tombstones.raw_induct [where P = "\<lambda>draws k m tombstones m'. walls_kept m m'"])
  show "place_tombstones draws k m tombstones = Some m'" by fact
next
  fix place :: "(nat \<Rightarrow> nat \<times> nat) \<Rightarrow> nat \<Rightarrow> Maze \<Rightarrow> nat \<Rightarrow> Maze option"
    and draws :: "nat \<Rightarrow> nat \<times> nat" and k :: nat and m :: Maze and tombstones :: nat
    and res :: Maze
  assume IH: "\<And>a b c d y. place a b c d = Some y \<Longrightarrow> walls_kept c y"
  let ?ry = "snd (rand_cell (draws k))" and ?rx = "fst (rand_cell (draws k))"
  assume step: "(if tombstones < 3 then
        (if cell_at m ?ry ?rx = Some PELLET \<or> cell_at m ?ry ?rx = Some EMPTY
         then place draws (k + 1) (set_cell m ?ry ?rx TOMBSTONE) (tombstones + 1)
         else place draws (k + 1) m tombstones)
      else Some m) = Some res"
  show "walls_kept m res"
  proof (cases "tombstones < 3")
    case False
    with step show ?thesis by simp
  next
    case True
    show ?thesis
    proof (cases "cell_at m ?ry ?rx = Some PELLET \<or> cell_at m ?ry ?rx = Some EMPTY")
      case hit: True
      with True step have "place draws (k + 1) (set_cell m ?ry ?rx TOMBSTONE) (tombstones + 1) = Some res"
        by auto
      then have "walls_kept (set_cell m ?ry ?rx TOMBSTONE) res" by (rule IH)
      moreover from hit have "walls_kept m (set_cell m ?ry ?rx TOMBSTONE)"
        by (auto intro: walls_kept_set_cell)
      ultimately show ?thesis by (rule walls_kept_trans [rotated])
    next
      case False
      with True step have "place draws (k + 1) m tombstones = Some res" by auto
      then show ?thesis by (rule IH)
    qed
  qed
qed

lemma initGame_result:
  assumes "initGame b d s = Some t"
  shows "gameState t = gameState s" and "wallsLeft t = 0" and "powerMode t = 0"
    and "eatenPellets t = 0" and "1 \<le> totalPellets t" and "ghosts t = initial_ghosts"
    and "border_walled (maze t)" and "countdown t = countdown s"
proof -
  from assms obtain m0 m2 m3 where
    g: "generateMaze (shuffle_draws d) = Some m0" and
    c: "place_candies (candy_draws d) 0 (snd (find_start m0)) 0 = Some m2" and
    p: "place_tombstones (tombstone_draws d) 0 m2 0 = Some m3" and
    t: "t = s\<lparr>stage := (if b then stage s + 1 else 1),
               score := (if b then score s else 0),
               lives := (if b then lives s else 3),
               maze := m3, witches := [], totalPellets := count_pellets m0, eatenPellets := 0,
               pacman := \<lparr>pos_x = fst (fst (find_start m0)) * TILE_SIZE,
                           pos_y = snd (fst (find_start m0)) * TILE_SIZE,
                           dir = NONE, nextDir = NONE, speed = 4\<rparr>,
               ghosts := initial_ghosts, wallsLeft := 0, powerMode := 0\<rparr>"
    by (auto simp: initGame_def Let_def split: option.splits)
  show "gameState t = gameState s" "wallsLeft t = 0" "powerMode t = 0" "eatenPellets t = 0"
    "ghosts t = initial_ghosts" "countdown t = countdown s"
    by (simp_all add: t)
  show "1 \<le> totalPellets t"
    using count_pellets_positive [OF generateMaze_shape(2) [OF g]] by (simp add: t)
  have "walls_kept m0 m3"
    using find_start_walls_kept [of m0] place_candies_walls_kept [OF c]
      place_tombstones_walls_kept [OF p] walls_kept_trans by blast
  then show "border_walled (maze t)"
    using generateMaze_shape(1) [OF g] by (simp add: t walls_kept_border)
qed

subsection \<open>Invariants of the tick\<close>

lemma update_wallsLeft: "0 \<le> wallsLeft s \<Longrightarrow> 0 \<le> wallsLeft (update inp s)"
proof (cases "gameState s = PLAYING")
  case False
  then show "0 \<le> wallsLeft s \<Longrightarrow> ?thesis" by (simp add: update_def)
next
  case True
  assume w: "0 \<le> wallsLeft s"
  have m: "0 \<le> wallsLeft (move_phase s)"
    using w by (auto simp: move_phase_def break_wall_def Let_def)
  have "0 \<le> wallsLeft (tile_phase inp pac t)" if "0 \<le> wallsLeft t" for pac t
    using that by (auto simp: tile_phase_def eat_candy_def hit_tombstone_def Let_def)
  from this [of "if out_of_bounds (pacman (move_phase s)) then resetPositions (move_phase s)
                 else move_phase s" "pacman (move_phase s)"] m
  show ?thesis using True by (simp add: update_playing)
qed

lemma none_scared_reset: "none_scared (resetPositions s)"
  by (auto simp: none_scared_def resetPositions_def list_all_iff resetGhost_def in_set_enumerate_eq)

lemma none_scared_loseLife: "none_scared s \<Longrightarrow> none_scared (loseLife s)"
  using none_scared_reset [of s]
  by (auto simp: loseLife_def none_scared_def)

lemma none_scared_render: "none_scared s \<Longrightarrow> none_scared (render s)"
proof -
  assume "none_scared s"
  then have "none_scared ((loseLife ^^ n) s)" for n
    by (induction n) (simp_all add: none_scared_loseLife)
  then show ?thesis by (simp add: render_def none_scared_def)
qed

lemma none_scared_queue [simp]: "none_scared (setLives_loseLife s) = none_scared s"
  by (simp add: none_scared_def)

lemma none_scared_update_ghost:
  "none_scared s \<Longrightarrow> \<not> isScared g \<Longrightarrow> none_scared (s\<lparr>ghosts := (ghosts s)[i := g]\<rparr>)"
  by (auto simp: none_scared_def list_all_iff dest: set_update_subset_insert [THEN subsetD])

lemma none_scared_nth: "none_scared s \<Longrightarrow> i < length (ghosts s) \<Longrightarrow> \<not> isScared (ghosts s ! i)"
  by (simp add: none_scared_def list_all_length)

lemma none_scared_update_nth:
  "none_scared s \<Longrightarrow> isScared g \<longrightarrow> isScared (ghosts s ! i)
     \<Longrightarrow> none_scared (s\<lparr>ghosts := (ghosts s)[i := g]\<rparr>)"
proof (cases "i < length (ghosts s)")
  case True
  assume "none_scared s" "isScared g \<longrightarrow> isScared (ghosts s ! i)"
  with True show ?thesis
    using none_scared_nth [of s i] by (simp add: none_scared_update_ghost)
next
  case False
  assume "none_scared s"
  with False show ?thesis by (simp add: list_update_beyond none_scared_def)
qed

lemma none_scared_collide: "none_scared s \<Longrightarrow> none_scared (ghost_collide pac i s)"
proof -
  assume n: "none_scared s"
  have "none_scared (s\<lparr>ghosts := (ghosts s)[i := (ghosts s ! i)\<lparr>isScared := False, isDying := True,
            deathTimer := 30\<rparr>], score := score s + 200\<rparr>)"
    using none_scared_update_nth [OF n, of "(ghosts s ! i)\<lparr>isScared := False, isDying := True,
            deathTimer := 30\<rparr>" i]
    by (simp add: none_scared_def)
  with n show ?thesis
    by (simp add: ghost_collide_def Let_def)
qed

lemma none_scared_revive: "none_scared s \<Longrightarrow> none_scared (ghost_revive r i s)"
  using none_scared_update_nth [of s "(ghosts s ! i)\<lparr>isEaten := False\<rparr>" i]
  by (simp add: ghost_revive_def Let_def)

lemma none_scared_ghost_step: "none_scared s \<Longrightarrow> none_scared (ghost_step inp pac i s)"
proof -
  assume n: "none_scared s"
  have d: "none_scared (s\<lparr>ghosts := (ghosts s)[i := ghost_dying (ghosts s ! i)]\<rparr>)"
    using n by (rule none_scared_update_nth) (simp add: ghost_dying_def Let_def)
  have "none_scared (s\<lparr>ghosts := (ghosts s)[i := ghost_move (ghost_choose s (ghost_dir_draw inp i)
          (ghosts s ! i))]\<rparr>)"
    using n by (rule none_scared_update_nth) simp
  then have "none_scared (ghost_revive (ghost_revive_draw inp i) i (ghost_collide pac i
      (s\<lparr>ghosts := (ghosts s)[i := ghost_move (ghost_choose s (ghost_dir_draw inp i)
          (ghosts s ! i))]\<rparr>)))"
    by (intro none_scared_revive none_scared_collide)
  with d show ?thesis by (simp add: ghost_step_def Let_def)
qed

lemma none_scared_ghosts_phase: "none_scared s \<Longrightarrow> none_scared (ghosts_phase inp pac s)"
  unfolding ghosts_phase_def by (rule fold_invariant) (simp_all add: none_scared_ghost_step)

lemma none_scared_witch_step: "none_scared s \<Longrightarrow> none_scared (witch_step pac i s)"
  by (simp add: none_scared_def)

lemma none_scared_witches_phase: "none_scared s \<Longrightarrow> none_scared (witches_phase pac s)"
proof -
  assume "none_scared s"
  then have "none_scared (fold (witch_step pac) [0..<length (witches s)] s)"
    by (rule fold_invariant) (simp add: none_scared_witch_step)
  then show ?thesis by (simp add: witches_phase_def Let_def none_scared_def)
qed


lemma power_inv_tile: "power_inv t \<Longrightarrow> power_inv (tile_phase inp pac t)"
proof -
  assume p: "power_inv t"
  then show ?thesis
    by (auto simp: power_inv_def tile_phase_def eat_candy_def hit_tombstone_def Let_def
        none_scared_def)
qed

lemma power_inv_power_phase: "power_inv t \<Longrightarrow> power_inv (power_phase t)"
  by (auto simp: power_inv_def power_phase_def Let_def none_scared_def list_all_iff)

lemma update_power_inv: "power_inv s \<Longrightarrow> power_inv (update inp s)"
proof (cases "gameState s = PLAYING")
  case False
  then show "power_inv s \<Longrightarrow> ?thesis" by (simp add: update_def)
next
  case True
  assume p: "power_inv s"
  let ?pac = "pacman (move_phase s)"
  let ?s2 = "if out_of_bounds ?pac then resetPositions (move_phase s) else move_phase s"
  have "power_inv ?s2"
    using p none_scared_reset [of "move_phase s"] by (simp add: power_inv_def none_scared_def)
  then have "power_inv (power_phase (tile_phase inp ?pac ?s2))"
    by (intro power_inv_power_phase power_inv_tile)
  then have "power_inv (ghosts_phase inp ?pac (power_phase (tile_phase inp ?pac ?s2)))"
    using none_scared_ghosts_phase by (simp add: power_inv_def)
  then have "power_inv (witch_spawn_phase (witch_spawn inp)
       (bonus_phase (fruit_bonus inp) FRUIT (bonus_phase (candy_bonus inp) POWER_CANDY
         (win_phase (ghosts_phase inp ?pac (power_phase (tile_phase inp ?pac ?s2)))))))"
    by (simp add: power_inv_def none_scared_def)
  then have "power_inv (witches_phase ?pac (witch_spawn_phase (witch_spawn inp)
       (bonus_phase (fruit_bonus inp) FRUIT (bonus_phase (candy_bonus inp) POWER_CANDY
         (win_phase (ghosts_phase inp ?pac (power_phase (tile_phase inp ?pac ?s2))))))))"
    using none_scared_witches_phase by (simp add: power_inv_def)
  with True show ?thesis by (simp add: update_playing)
qed

lemma tile_phase_eaten:
  "eatenPellets (tile_phase inp pac t) = eatenPellets t
   \<or> eatenPellets (tile_phase inp pac t) = eatenPellets t + 1"
  by (simp add: tile_phase_def eat_candy_def hit_tombstone_def Let_def)

lemma update_pellets:
  "totalPellets (update inp s) = totalPellets s"
  "eatenPellets (update inp s) = eatenPellets s \<or> eatenPellets (update inp s) = eatenPellets s + 1"
proof -
  show "totalPellets (update inp s) = totalPellets s"
    by (cases "gameState s = PLAYING") (simp_all add: update_playing, simp add: update_def)
  show "eatenPellets (update inp s) = eatenPellets s \<or> eatenPellets (update inp s) = eatenPellets s + 1"
  proof (cases "gameState s = PLAYING")
    case False
    then show ?thesis by (simp add: update_def)
  next
    case True
    let ?pac = "pacman (move_phase s)"
    let ?s2 = "if out_of_bounds ?pac then resetPositions (move_phase s) else move_phase s"
    have "eatenPellets ?s2 = eatenPellets s" by simp
    with tile_phase_eaten [of inp ?pac ?s2] True show ?thesis
      by (simp add: update_playing)
  qed
qed

lemma update_still_playing:
  "gameState (update inp s) = PLAYING \<Longrightarrow>
     \<not> win_reached (eatenPellets (update inp s)) (totalPellets (update inp s))"
proof (cases "gameState s = PLAYING")
  case False
  then show "gameState (update inp s) = PLAYING \<Longrightarrow> ?thesis" by (simp add: update_def)
next
  case True
  assume "gameState (update inp s) = PLAYING"
  with True show ?thesis
    by (auto simp: update_playing win_phase_def split: if_splits)
qed

lemma update_pellet_inv: "pellet_inv s \<Longrightarrow> pellet_inv (update inp s)"
proof (cases "gameState s = PLAYING")
  case False
  then show "pellet_inv s \<Longrightarrow> ?thesis" by (simp add: update_def)
next
  case True
  assume p: "pellet_inv s"
  then have e: "0 \<le> eatenPellets s" "4 * eatenPellets s < 3 * totalPellets s"
    using True by (simp_all add: pellet_inv_def)
  note u = update_pellets [of inp s]
  have "gameState (update inp s) = PLAYING \<longrightarrow>
      4 * eatenPellets (update inp s) < 3 * totalPellets (update inp s)"
    using update_still_playing [of inp s] e u by (auto simp: win_reached_def split: if_splits)
  moreover have "0 \<le> eatenPellets (update inp s)" "eatenPellets (update inp s) \<le> totalPellets (update inp s)"
    using e u by auto
  ultimately show ?thesis by (simp add: pellet_inv_def)
qed


lemma tick_invariants:
  assumes "0 \<le> wallsLeft s" "power_inv s" "pellet_inv s"
  shows "0 \<le> wallsLeft (tick inp s)" "power_inv (tick inp s)" "pellet_inv (tick inp s)"
proof -
  note u = update_wallsLeft [OF assms(1), of inp] update_power_inv [OF assms(2), of inp]
    update_pellet_inv [OF assms(3), of inp]
  show "0 \<le> wallsLeft (tick inp s)" using u(1) by (simp add: tick_def)
  show "power_inv (tick inp s)"
    using u(2) none_scared_render [of "update inp s"] by (simp add: tick_def power_inv_def)
  show "pellet_inv (tick inp s)"
    using u(3) render_still_playing [of "update inp s"]
    by (auto simp: tick_def pellet_inv_def)
qed

lemma initial_ghosts_calm: "list_all (\<lambda>g. \<not> isScared g) initial_ghosts"
  by (simp add: initial_ghosts_def list_all_iff)

lemma initGame_invariants:
  assumes "initGame b d s = Some t"
  shows "0 \<le> wallsLeft (t\<lparr>gameState := g\<rparr>)" "power_inv (t\<lparr>gameState := g\<rparr>)"
    "pellet_inv (t\<lparr>gameState := g\<rparr>)" "queued t = queued s"
proof -
  show "0 \<le> wallsLeft (t\<lparr>gameState := g\<rparr>)" "power_inv (t\<lparr>gameState := g\<rparr>)"
    "pellet_inv (t\<lparr>gameState := g\<rparr>)"
    using initGame_result [OF assms] initial_ghosts_calm
    by (simp_all add: power_inv_def pellet_inv_def none_scared_def)
  show "queued t = queued s"
    using assms by (auto simp: initGame_def Let_def split: option.splits)
qed

lemma reachable_invariants:
  "reachable s \<Longrightarrow> 0 \<le> wallsLeft s \<and> power_inv s \<and> pellet_inv s \<and> queued s = 0"
proof (induction rule: reachable.induct)
  case reach_mounted
  show ?case by (simp add: mounted_def power_inv_def pellet_inv_def none_scared_def)
next
  case (reach_tick s inp)
  then show ?case by (simp add: tick_invariants) (simp add: tick_def)
next
  case (reach_key s k)
  then show ?case
    by (cases k) (simp_all add: handleKeyDown_def power_inv_def pellet_inv_def none_scared_def)
next
  case (reach_start s d t)
  then obtain t0 where "initGame False d s = Some t0" "t = t0\<lparr>gameState := PLAYING\<rparr>"
    by (auto simp: startGame_def)
  then show ?case
    using initGame_invariants(1-3) [of False d s t0 PLAYING] initGame_invariants(4) [of False d s t0]
      reach_start.IH
    by simp
next
  case (reach_countdown s)
  then show ?case by (simp add: countdown_start_def power_inv_def pellet_inv_def none_scared_def)
next
  case (reach_interval s d t)
  show ?case
  proof (cases "countdown s \<le> 1")
    case True
    with reach_interval.hyps(2) obtain t0 where
      "initGame True d s = Some t0" "t = t0\<lparr>gameState := PLAYING, countdown := 0\<rparr>"
      by (auto simp: countdown_tick_def nextStage_def)
    then show ?thesis
      using initGame_invariants(1-3) [of True d s t0 PLAYING] initGame_invariants(4) [of True d s t0]
        reach_interval.IH
      by (simp add: power_inv_def pellet_inv_def none_scared_def)
  next
    case False
    with reach_interval show ?thesis
      by (auto simp: countdown_tick_def power_inv_def pellet_inv_def none_scared_def)
  qed
next
  case (reach_title s)
  then show ?case by (simp add: toTitle_def power_inv_def pellet_inv_def none_scared_def)
qed

declare place_candies.simps [code] place_tombstones.simps [code]

lemma first_stage_started: "startGame d0 mounted = Some first_stage"
proof -
  have "startGame d0 mounted \<noteq> None" by code_simp
  then show ?thesis by (auto simp: first_stage_def)
qed

lemma first_stage_reachable: "reachable first_stage"
  using reach_start [OF reach_mounted first_stage_started] .

lemma first_stage_playing: "gameState first_stage = PLAYING"
proof -
  from first_stage_started obtain z where "z\<lparr>gameState := PLAYING\<rparr> = first_stage"
    by (auto simp: startGame_def)
  then have "gameState first_stage = gameState (z\<lparr>gameState := PLAYING\<rparr>)" by simp
  then show ?thesis by simp
qed

subsection \<open>Wall breaks\<close>

lemma move_phase_break:
  "maze (move_phase s) = maze s \<and> wallsLeft (move_phase s) = wallsLeft s \<or>
   0 < powerMode s \<and> 0 < wallsLeft s \<and> wallsLeft (move_phase s) = wallsLeft s - 1"
  by (auto simp: move_phase_def break_wall_def Let_def)

lemma update_walls_kept_after_move:
  assumes "gameState s = PLAYING"
  shows "walls_kept (maze (move_phase s)) (maze (update inp s))"
proof -
  let ?s2 = "if out_of_bounds (pacman (move_phase s)) then resetPositions (move_phase s)
             else move_phase s"
  let ?t = "tile_phase inp (pacman (move_phase s)) ?s2"
  let ?w = "win_phase (ghosts_phase inp (pacman (move_phase s)) (power_phase ?t))"
  let ?b = "bonus_phase (candy_bonus inp) POWER_CANDY ?w"
  have "maze ?s2 = maze (move_phase s)" by simp
  then have "walls_kept (maze (move_phase s)) (maze ?t)"
    using tile_phase_walls_kept [of ?s2 inp "pacman (move_phase s)"] by simp
  then have "walls_kept (maze (move_phase s)) (maze ?w)" by simp
  then have "walls_kept (maze (move_phase s)) (maze ?b)"
    using bonus_phase_walls_kept [of ?w] walls_kept_trans by blast
  then have "walls_kept (maze (move_phase s)) (maze (bonus_phase (fruit_bonus inp) FRUIT ?b))"
    using bonus_phase_walls_kept [of ?b] walls_kept_trans by blast
  then show ?thesis using assms by (simp add: update_playing)
qed

lemma update_maze_no_draws:
  "gameState s = PLAYING \<Longrightarrow> \<not> out_of_bounds (pacman (move_phase s)) \<Longrightarrow>
   maze (update no_draws s) = maze (tile_phase no_draws (pacman (move_phase s)) (move_phase s))"
  by (simp add: update_playing no_draws_sel)

lemma update_wallsLeft_eq:
  "gameState s = PLAYING \<Longrightarrow> \<not> out_of_bounds (pacman (move_phase s)) \<Longrightarrow>
   wallsLeft (update inp s) = wallsLeft (tile_phase inp (pacman (move_phase s)) (move_phase s))"
  by (simp add: update_playing)

lemma power_tomb_state_move:
  "move_phase power_tomb_state =
     power_tomb_state\<lparr>pacman := start_pacman\<lparr>pos_x := 236, dir := RIGHT\<rparr>\<rparr>"
  by (simp add: power_tomb_state_def tomb_state_def demo_state_def set_cell_def nth_list_update
      eval_defs)

lemma break_state_move:
  "move_phase break_state =
     break_state\<lparr>pacman := start_pacman\<lparr>pos_x := 36, pos_y := 16, dir := UP\<rparr>,
       maze := set_cell box_maze 0 1 EMPTY, wallsLeft := 4, score := 50\<rparr>"
  by (simp add: break_state_def demo_state_def eval_defs)

lemma box_maze_top: "cell_at box_maze 0 1 = Some WALL"
  by (simp add: cell_at_def box_maze_def)

subsection \<open>The revived ghost\<close>

lemma revive_state_move: "move_phase revive_state = revive_state"
  by (simp add: revive_state_def demo_state_def eval_defs)

lemma revive_state_tile: "tile_phase revive_draws start_pacman revive_state = revive_state"
  by (simp add: revive_state_def demo_state_def eval_defs)

lemma revive_state_power: "power_phase revive_state = revive_state\<lparr>powerMode := 299\<rparr>"
  by (simp add: revive_state_def demo_state_def eval_defs)

lemma revive_state_ghosts:
  "ghosts_phase revive_draws start_pacman (revive_state\<lparr>powerMode := 299\<rparr>) =
     revive_state\<lparr>powerMode := 299,
       ghosts := [(start_ghost 0)\<lparr>pos_x := 7 * TILE_SIZE, pos_y := 358\<rparr>,
                  (start_ghost 1)\<lparr>isScared := True, pos_y := 359\<rparr>,
                  (start_ghost 2)\<lparr>isScared := True, pos_y := 359\<rparr>,
                  (start_ghost 3)\<lparr>isScared := True, pos_y := 359\<rparr>]\<rparr>"
  unfolding ghosts_phase_def
  apply (simp add: revive_state_def demo_state_def upt_conv_Cons)
  apply (simp add: ghost_step_def revive_draws_def eval_defs)
  done

lemma first_stage_fields:
  "powerMode first_stage = 0" "wallsLeft first_stage = 0" "border_walled (maze first_stage)"
  "ghosts first_stage = initial_ghosts"
proof -
  obtain t0 where i: "initGame False d0 mounted = Some t0"
    and f: "t0\<lparr>gameState := PLAYING\<rparr> = first_stage"
    using first_stage_started by (auto simp: startGame_def)
  have "maze first_stage = maze t0" "powerMode first_stage = powerMode t0"
    "wallsLeft first_stage = wallsLeft t0" "ghosts first_stage = ghosts t0"
    by (simp_all add: f [symmetric])
  with initGame_result [OF i]
  show "powerMode first_stage = 0" "wallsLeft first_stage = 0" "border_walled (maze first_stage)"
    "ghosts first_stage = initial_ghosts"
    by simp_all
qed

subsection \<open>The border of the example maze\<close>

lemma box_maze_border: "border_walled box_maze"
  by code_simp

subsection \<open>The death animation\<close>

lemma ghost_dying_step:
  "1 < deathTimer g \<Longrightarrow>
     ghost_dying g = g\<lparr>deathTimer := deathTimer g - 1, pos_y := pos_y g - 2\<rparr>"
  "deathTimer g \<le> 1 \<Longrightarrow>
     ghost_dying g = g\<lparr>deathTimer := deathTimer g - 1, isDying := False, isEaten := True,
                       pos_x := (GRID_WIDTH div 2) * TILE_SIZE,
                       pos_y := (GRID_HEIGHT div 2) * TILE_SIZE\<rparr>"
  by (simp_all add: ghost_dying_def Let_def)

lemma ghost_dying_iterate:
  "k < n \<Longrightarrow> deathTimer g = int n \<Longrightarrow>
     deathTimer ((ghost_dying ^^ k) g) = int n - int k \<and>
     isDying ((ghost_dying ^^ k) g) = isDying g \<and>
     isEaten ((ghost_dying ^^ k) g) = isEaten g \<and>
     pos_x ((ghost_dying ^^ k) g) = pos_x g \<and>
     pos_y ((ghost_dying ^^ k) g) = pos_y g - 2 * int k"
proof (induction k)
  case 0
  then show ?case by simp
next
  case (Suc k)
  let ?h = "(ghost_dying ^^ k) g"
  from Suc have ih: "deathTimer ?h = int n - int k" "isDying ?h = isDying g"
    "isEaten ?h = isEaten g" "pos_x ?h = pos_x g" "pos_y ?h = pos_y g - 2 * int k"
    by simp_all
  from Suc.prems ih(1) have "1 < deathTimer ?h" by simp
  from ghost_dying_step(1) [OF this] ih show ?case by simp
qed

lemma ghost_dying_last:
  assumes "deathTimer g = int (Suc n)"
  shows "\<not> isDying ((ghost_dying ^^ Suc n) g)" "isEaten ((ghost_dying ^^ Suc n) g)"
    "pos_x ((ghost_dying ^^ Suc n) g) = (GRID_WIDTH div 2) * TILE_SIZE"
    "pos_y ((ghost_dying ^^ Suc n) g) = (GRID_HEIGHT div 2) * TILE_SIZE"
proof -
  have "deathTimer ((ghost_dying ^^ n) g) \<le> 1"
    using ghost_dying_iterate [of n "Suc n" g] assms by simp
  from ghost_dying_step(2) [OF this]
  show "\<not> isDying ((ghost_dying ^^ Suc n) g)" "isEaten ((ghost_dying ^^ Suc n) g)"
    "pos_x ((ghost_dying ^^ Suc n) g) = (GRID_WIDTH div 2) * TILE_SIZE"
    "pos_y ((ghost_dying ^^ Suc n) g) = (GRID_HEIGHT div 2) * TILE_SIZE"
    by simp_all
qed

lemma dying_state_move: "move_phase dying_state = dying_state"
  by (simp add: dying_state_def witch_state_def demo_state_def eval_defs)

lemma dying_state_tile: "tile_phase no_draws start_pacman dying_state = dying_state"
  by (simp add: dying_state_def witch_state_def demo_state_def eval_defs)

lemma dying_state_power: "power_phase dying_state = dying_state\<lparr>powerMode := 299\<rparr>"
  by (simp add: dying_state_def witch_state_def demo_state_def eval_defs)

lemma dying_state_ghosts:
  "ghosts_phase no_draws start_pacman (dying_state\<lparr>powerMode := 299\<rparr>) =
     dying_state\<lparr>powerMode := 299,
       ghosts := [(start_ghost 0)\<lparr>pos_y := 298, isDying := True, deathTimer := 9\<rparr>,
                  (start_ghost 1)\<lparr>pos_y := 358\<rparr>, (start_ghost 2)\<lparr>pos_y := 358\<rparr>,
                  (start_ghost 3)\<lparr>pos_y := 358\<rparr>]\<rparr>"
  unfolding ghosts_phase_def
  apply (simp add: dying_state_def witch_state_def demo_state_def upt_conv_Cons)
  apply (simp add: ghost_step_def ghost_dying_def eval_defs)
  done

lemma dying_state_witches:
  "queued (witches_phase start_pacman (dying_state\<lparr>powerMode := 299,
       ghosts := [(start_ghost 0)\<lparr>pos_y := 298, isDying := True, deathTimer := 9\<rparr>,
                  (start_ghost 1)\<lparr>pos_y := 358\<rparr>, (start_ghost 2)\<lparr>pos_y := 358\<rparr>,
                  (start_ghost 3)\<lparr>pos_y := 358\<rparr>]\<rparr>)) = 1"
proof -
  have "closer_than (real_of_int TILE_SIZE * 0.7) 252 684 (250 + sin (1365 / 60 + 1) * 3) (1365 / 2)"
    using sin_drift_close [of "1365 / 60 + 1"]
    by (simp add: closer_than_iff power2_eq_square)
  then show ?thesis
    by (simp add: witches_phase_def dying_state_def witch_state_def demo_state_def witch_step_def
        Let_def start_pacman_def)
qed

subsection \<open>The placement loops\<close>



subsection \<open>A dying ghost through a tick\<close>

lemma ghosts_phase_dying:
  assumes i: "i < length (ghosts t)" and d: "isDying (ghosts t ! i)"
  shows "ghosts (ghosts_phase inp pac t) ! i = ghost_dying (ghosts t ! i)"
proof -
  let ?u = "fold (ghost_step inp pac) [0..<i] t"
  have len: "length (ghosts ?u) = length (ghosts t)"
    by (rule fold_frame) simp
  have same: "ghosts ?u ! i = ghosts t ! i"
    by (rule fold_frame_on [where f = "\<lambda>t. ghosts t ! i"]) (simp add: ghost_step_other)
  have "ghosts (ghost_step inp pac i ?u) ! i = ghost_dying (ghosts t ! i)"
    using i d len same by (simp add: ghost_step_def)
  moreover have "ghosts (fold (ghost_step inp pac) [Suc i..<length (ghosts t)]
                   (ghost_step inp pac i ?u)) ! i
      = ghosts (ghost_step inp pac i ?u) ! i"
    by (rule fold_frame_on [where f = "\<lambda>t. ghosts t ! i"]) (simp add: ghost_step_other)
  ultimately show ?thesis
    using i by (simp add: ghosts_phase_def upt_split [of i "length (ghosts t)"])
qed

lemma before_ghosts_nth:
  assumes "\<not> out_of_bounds (pacman (move_phase s))" and "i < length (ghosts s)"
  shows "(ghosts (before_ghosts inp s) ! i)\<lparr>isScared := b0\<rparr> = (ghosts s ! i)\<lparr>isScared := b0\<rparr>"
proof -
  have t: "(ghosts (tile_phase inp pac t) ! i)\<lparr>isScared := b0\<rparr> = (ghosts t ! i)\<lparr>isScared := b0\<rparr>"
    if "i < length (ghosts t)" for pac t
    using that by (simp add: tile_phase_def eat_candy_def hit_tombstone_def Let_def)
  have p: "(ghosts (power_phase t) ! i)\<lparr>isScared := b0\<rparr> = (ghosts t ! i)\<lparr>isScared := b0\<rparr>"
    if "i < length (ghosts t)" for t
    using that by (simp add: power_phase_def Let_def)
  from assms t [of "move_phase s" "pacman (move_phase s)"]
    p [of "tile_phase inp (pacman (move_phase s)) (move_phase s)"]
  show ?thesis by (simp add: before_ghosts_def Let_def)
qed

lemma ghost_dying_scared:
  "(ghost_dying g)\<lparr>isScared := b0\<rparr> = ghost_dying (g\<lparr>isScared := b0\<rparr>)"
  by (simp add: ghost_dying_def Let_def)

lemma dying_update:
  assumes playing: "gameState s = PLAYING"
    and inside: "\<not> out_of_bounds (pacman (move_phase s))"
    and i: "i < length (ghosts s)" and d: "isDying (ghosts s ! i)"
  shows "(ghosts (update inp s) ! i)\<lparr>isScared := b0\<rparr> = (ghost_dying (ghosts s ! i))\<lparr>isScared := b0\<rparr>"
proof -
  let ?t = "before_ghosts inp s"
  note n = before_ghosts_nth [OF inside i, where inp = inp and ?b0.0 = b0]
  then have "isDying ((ghosts ?t ! i)\<lparr>isScared := b0\<rparr>) = isDying ((ghosts s ! i)\<lparr>isScared := b0\<rparr>)"
    by simp
  with d have "isDying (ghosts ?t ! i)" by simp
  with i have "ghosts (ghosts_phase inp (pacman (move_phase s)) ?t) ! i = ghost_dying (ghosts ?t ! i)"
    by (intro ghosts_phase_dying) simp_all
  then have "(ghosts (update inp s) ! i)\<lparr>isScared := b0\<rparr> = ghost_dying ((ghosts ?t ! i)\<lparr>isScared := b0\<rparr>)"
    using playing by (simp add: update_positions ghost_dying_scared)
  also have "\<dots> = (ghost_dying (ghosts s ! i))\<lparr>isScared := b0\<rparr>"
    by (simp only: n ghost_dying_scared)
  finally show ?thesis .
qed

lemma render_same_lives:
  assumes "lives (render u) = lives u"
  shows "ghosts (render u) = ghosts u" "pacman (render u) = pacman u"
proof -
  consider (none) "queued u = 0" | (last) "0 < queued u" "lives u \<le> 1"
    | (more) "0 < queued u" "1 < lives u"
    by linarith
  then have "ghosts (render u) = ghosts u \<and> pacman (render u) = pacman u"
  proof cases
    case none
    then show ?thesis by (simp add: render_none)
  next
    case last
    then show ?thesis by (simp add: render_last)
  next
    case more
    with assms show ?thesis by (simp add: render_more)
  qed
  then show "ghosts (render u) = ghosts u" "pacman (render u) = pacman u" by simp_all
qed

lemma resetPositions_nth:
  "i < length (ghosts s) \<Longrightarrow> ghosts (resetPositions s) ! i = resetGhost i (ghosts s ! i)"
  by (simp add: resetPositions_def nth_enumerate_eq)

lemma update_length [simp]: "length (ghosts (update inp s)) = length (ghosts s)"
  by (cases "gameState s = PLAYING") (simp_all add: update_loops update_idle)

lemma guard_state_move: "move_phase guard_state = guard_state"
  by (simp add: guard_state_def demo_state_def eval_defs)

lemma guard_state_tile: "tile_phase no_draws start_pacman guard_state = guard_state"
  by (simp add: guard_state_def demo_state_def eval_defs)

lemma guard_state_ghosts:
  "queued (ghosts_phase no_draws start_pacman guard_state) = 0"
  unfolding ghosts_phase_def
  apply (simp add: guard_state_def demo_state_def upt_conv_Cons)
  apply (simp add: ghost_step_def ghost_dying_def eval_defs)
  done

lemma guard_state_tick: "tick no_draws guard_state = update no_draws guard_state"
proof -
  have p: "gameState guard_state = PLAYING" "pacman guard_state = start_pacman"
    "witches guard_state = []" "powerMode guard_state = 0"
    by (simp_all add: guard_state_def demo_state_def)
  have q: "power_phase guard_state = guard_state" by (simp add: power_phase_def p)
  have "witches (ghosts_phase no_draws start_pacman guard_state) = []" by (simp add: p)
  then have w: "witches_phase start_pacman (win_phase (ghosts_phase no_draws start_pacman guard_state))
       = (win_phase (ghosts_phase no_draws start_pacman guard_state))\<lparr>witches := []\<rparr>"
    by (simp add: witches_phase_def)
  have "queued (update no_draws guard_state) = 0"
    by (simp add: update_playing p guard_state_move start_pacman_inside guard_state_tile q
        no_draws_sel w guard_state_ghosts)
  then show ?thesis by (simp add: tick_def render_none)
qed

subsection \<open>Life-loss events in a tick\<close>

lemma unpowered_tombstone:
  assumes unpowered: "powerMode s = 0"
    and tomb: "cell_at (maze (move_phase s)) (centre_cell (pos_y (pacman (move_phase s))))
                 (centre_cell (pos_x (pacman (move_phase s)))) = Some TOMBSTONE"
  shows "queued (before_ghosts inp s) = Suc (queued s)"
proof -
  let ?pac = "pacman (move_phase s)"
  have t: "queued (tile_phase inp ?pac t) = Suc (queued t)"
    if "maze t = maze (move_phase s)" "powerMode t = powerMode s" for t
    using that tomb unpowered by (simp add: tile_phase_def hit_tombstone_def Let_def)
  have r: "maze (resetPositions (move_phase s)) = maze (move_phase s)"
    "powerMode (resetPositions (move_phase s)) = powerMode s"
    "maze (move_phase s) = maze (move_phase s)" "powerMode (move_phase s) = powerMode s"
    by simp_all
  note t1 = t [OF r(1,2)] and t2 = t [OF r(3,4)]
  show ?thesis by (simp add: before_ghosts_def Let_def t1 t2)
qed

lemma before_ghosts_le_update:
  "gameState s = PLAYING \<Longrightarrow> queued (before_ghosts inp s) \<le> queued (update inp s)"
  using before_witches_queued [of inp s]
    witches_phase_queued [of "before_witches inp s" "pacman (move_phase s)"]
  by (simp add: update_loops)

lemma before_witches_le_update:
  "gameState s = PLAYING \<Longrightarrow> queued (before_witches inp s) \<le> queued (update inp s)"
  using witches_phase_queued [of "before_witches inp s" "pacman (move_phase s)"]
  by (simp add: update_loops)

lemma event_playing: "queued s < queued (update inp s) \<Longrightarrow> gameState s = PLAYING"
  by (rule ccontr) (simp add: update_idle)

lemma update_pacman:
  "gameState s = PLAYING \<Longrightarrow> \<not> out_of_bounds (pacman (move_phase s)) \<Longrightarrow>
     pacman (update inp s) = pacman (move_phase s)"
  by (simp add: update_positions before_ghosts_pacman)

lemma resetPositions_fields:
  "pacman (resetPositions u) = \<lparr>pos_x = 252, pos_y = 684, dir = NONE, nextDir = NONE, speed = 4\<rparr>"
  "ghosts (resetPositions u) =
     map (\<lambda>(k, h). h\<lparr>pos_x := (if k mod 2 = 0 then 216 else 288), pos_y := 360, dir := UP,
                      isScared := False, isEaten := False, isDying := False\<rparr>)
       (enumerate 0 (ghosts u))"
proof -
  have "(\<lambda>(i, g). resetGhost i g) =
      (\<lambda>(k, h). h\<lparr>pos_x := (if k mod 2 = 0 then 216 else 288), pos_y := 360, dir := UP,
                     isScared := False, isEaten := False, isDying := False\<rparr>)"
    by (auto simp: fun_eq_iff resetGhost_def)
  then show "ghosts (resetPositions u) =
     map (\<lambda>(k, h). h\<lparr>pos_x := (if k mod 2 = 0 then 216 else 288), pos_y := 360, dir := UP,
                      isScared := False, isEaten := False, isDying := False\<rparr>)
       (enumerate 0 (ghosts u))"
    by (simp add: resetPositions_def)
  show "pacman (resetPositions u) = \<lparr>pos_x = 252, pos_y = 684, dir = NONE, nextDir = NONE, speed = 4\<rparr>"
    by (simp add: resetPositions_def)
qed

lemma before_witches_witches:
  "witch_spawn inp = None \<Longrightarrow> witches (before_witches inp s) = witches s"
  by (simp add: before_witches_def)

lemma update_no_witches:
  "gameState s = PLAYING \<Longrightarrow> witch_spawn inp = None \<Longrightarrow> witches s = [] \<Longrightarrow>
     queued (update inp s) = queued (ghosts_phase inp (pacman (move_phase s)) (before_ghosts inp s))"
  by (simp add: update_loops witches_phase_def before_witches_witches)

lemma bite_state_move: "move_phase (bite_state l) = bite_state l"
  by (simp add: bite_state_def demo_state_def eval_defs)

lemma bite_state_before: "before_ghosts no_draws (bite_state l) = bite_state l"
  unfolding before_ghosts_def bite_state_move
  by (simp add: bite_state_def demo_state_def eval_defs)

lemma bite_state_ghost:
  "ghost_move (ghost_choose (bite_state l) (ghost_dir_draw no_draws 0) (ghosts (bite_state l) ! 0))
     = (start_ghost 0)\<lparr>pos_x := 252, pos_y := 682\<rparr>"
  by (simp add: bite_state_def demo_state_def eval_defs)

lemma win_bite_state_move: "move_phase win_bite_state = win_bite_state"
  by (simp add: win_bite_state_def bite_state_def demo_state_def set_cell_def nth_list_update
      eval_defs)

lemma win_bite_state_cell: "cell_at (set_cell box_maze 19 7 PELLET) 19 7 = Some PELLET"
  by (simp add: cell_at_set_cell) (simp add: cell_at_def box_maze_def nth_append)

lemma win_bite_state_before:
  "before_ghosts no_draws win_bite_state =
     win_bite_state\<lparr>maze := set_cell (set_cell box_maze 19 7 PELLET) 19 7 EMPTY,
       eatenPellets := 75, score := 10\<rparr>"
proof -
  have c: "centre_cell (pos_y start_pacman) = 19" "centre_cell (pos_x start_pacman) = 7"
    by (simp_all add: centre_cell_def start_pacman_def)
  have f: "pacman win_bite_state = start_pacman" "powerMode win_bite_state = 0"
    "maze win_bite_state = set_cell box_maze 19 7 PELLET" "eatenPellets win_bite_state = 74"
    "score win_bite_state = 0"
    by (simp_all add: win_bite_state_def bite_state_def demo_state_def)
  show ?thesis
    unfolding before_ghosts_def win_bite_state_move
    by (simp add: Let_def f start_pacman_inside tile_phase_def c win_bite_state_cell
        power_phase_def)
qed

lemma win_bite_state_ghost:
  "ghost_move (ghost_choose (win_bite_state\<lparr>maze := set_cell (set_cell box_maze 19 7 PELLET) 19 7 EMPTY,
       eatenPellets := 75, score := 10\<rparr>) (ghost_dir_draw no_draws 0) (ghosts win_bite_state ! 0))
     = (start_ghost 0)\<lparr>pos_x := 252, pos_y := 682\<rparr>"
  by (simp add: win_bite_state_def bite_state_def demo_state_def set_cell_def nth_list_update
      eval_defs)

lemma double_bite_state_move: "move_phase double_bite_state = double_bite_state"
  by (simp add: double_bite_state_def demo_state_def eval_defs)

lemma double_bite_state_before: "before_ghosts no_draws double_bite_state = double_bite_state"
  unfolding before_ghosts_def double_bite_state_move
  by (simp add: double_bite_state_def demo_state_def eval_defs)

lemma double_bite_state_ghosts:
  "queued (ghosts_phase no_draws start_pacman double_bite_state) = 2"
  unfolding ghosts_phase_def
  apply (simp add: double_bite_state_def demo_state_def upt_conv_Cons)
  apply (simp add: ghost_step_def eval_defs)
  done

lemma double_bite_state_queued: "queued (update no_draws double_bite_state) = 2"
proof -
  have f: "gameState double_bite_state = PLAYING" "witches double_bite_state = []"
    "pacman double_bite_state = start_pacman"
    by (simp_all add: double_bite_state_def demo_state_def)
  show ?thesis
    using update_no_witches [OF f(1) no_draws_sel(3) f(2)]
    by (simp add: double_bite_state_move double_bite_state_before f double_bite_state_ghosts)
qed

lemma last_witch_state_move: "move_phase last_witch_state = last_witch_state"
  by (simp add: last_witch_state_def witch_state_def demo_state_def eval_defs)

subsection \<open>Tombstones in power mode\<close>

lemma bonus_phase_cell:
  "cell_at (maze (bonus_phase d t s)) gy gx = cell_at (maze s) gy gx \<or>
   cell_at (maze s) gy gx = Some EMPTY \<and> cell_at (maze (bonus_phase d t s)) gy gx = Some t"
  by (auto simp: bonus_phase_def Let_def cell_at_set_cell split: option.splits)

lemma update_maze:
  "gameState s = PLAYING \<Longrightarrow>
   maze (update inp s) =
     maze (bonus_phase (fruit_bonus inp) FRUIT
             (bonus_phase (candy_bonus inp) POWER_CANDY (before_ghosts inp s)))"
proof -
  have "maze (bonus_phase d t a) = maze (bonus_phase d t b)" if "maze a = maze b" for d t a b
    using that by (simp add: bonus_phase_def Let_def split: option.splits)
  note c = this
  assume "gameState s = PLAYING"
  then have "maze (update inp s) = maze (bonus_phase (fruit_bonus inp) FRUIT
       (bonus_phase (candy_bonus inp) POWER_CANDY
          (win_phase (ghosts_phase inp (pacman (move_phase s)) (before_ghosts inp s)))))"
    by (simp add: update_loops before_witches_def)
  also have "\<dots> = maze (bonus_phase (fruit_bonus inp) FRUIT
             (bonus_phase (candy_bonus inp) POWER_CANDY (before_ghosts inp s)))"
    by (intro c) simp
  finally show ?thesis .
qed

lemma update_wallsLeft_loops:
  "gameState s = PLAYING \<Longrightarrow> wallsLeft (update inp s) = wallsLeft (before_ghosts inp s)"
  by (simp add: update_loops)

lemma powered_tombstone:
  assumes powered: "0 < powerMode s"
    and tomb: "cell_at (maze (move_phase s)) (centre_cell (pos_y (pacman (move_phase s))))
                 (centre_cell (pos_x (pacman (move_phase s)))) = Some TOMBSTONE"
  shows "cell_at (maze (before_ghosts inp s)) (centre_cell (pos_y (pacman (move_phase s))))
           (centre_cell (pos_x (pacman (move_phase s)))) = Some EMPTY"
    "wallsLeft (before_ghosts inp s) =
       (if 0 < wallsLeft (move_phase s) then wallsLeft (move_phase s) - 1
        else wallsLeft (move_phase s))"
    "queued (before_ghosts inp s) = queued s"
    "score (before_ghosts inp s) = score (move_phase s) + 100"
proof -
  let ?pac = "pacman (move_phase s)"
  have t: "tile_phase inp ?pac t =
      t\<lparr>maze := set_cell (maze t) (centre_cell (pos_y ?pac)) (centre_cell (pos_x ?pac)) EMPTY,
        wallsLeft := (if wallsLeft t > 0 then wallsLeft t - 1 else wallsLeft t),
        score := score t + 100\<rparr>"
    if "maze t = maze (move_phase s)" "powerMode t = powerMode s" for t
    using that tomb powered by (simp add: tile_phase_def hit_tombstone_def Let_def)
  have r: "maze (resetPositions (move_phase s)) = maze (move_phase s)"
    "powerMode (resetPositions (move_phase s)) = powerMode s"
    "maze (move_phase s) = maze (move_phase s)" "powerMode (move_phase s) = powerMode s"
    by simp_all
  note t1 = t [OF r(1,2)] and t2 = t [OF r(3,4)]
  show "cell_at (maze (before_ghosts inp s)) (centre_cell (pos_y ?pac)) (centre_cell (pos_x ?pac))
          = Some EMPTY"
    using tomb by (simp add: before_ghosts_def Let_def t1 t2 cell_at_set_cell)
  show "wallsLeft (before_ghosts inp s) =
       (if 0 < wallsLeft (move_phase s) then wallsLeft (move_phase s) - 1
        else wallsLeft (move_phase s))"
    by (simp add: before_ghosts_def Let_def t1 t2)
  show "queued (before_ghosts inp s) = queued s"
    by (simp add: before_ghosts_def Let_def t1 t2)
  show "score (before_ghosts inp s) = score (move_phase s) + 100"
    by (simp add: before_ghosts_def Let_def t1 t2)
qed

lemma charged_tomb_state_move:
  "move_phase charged_tomb_state =
     charged_tomb_state\<lparr>pacman := start_pacman\<lparr>pos_x := 236, dir := RIGHT\<rparr>\<rparr>"
  by (simp add: charged_tomb_state_def tomb_state_def demo_state_def set_cell_def nth_list_update
      eval_defs)

section \<open>Claims\<close>

subsection \<open>C8: look-ahead outside the grid, and horizontal wrap\<close>

text \<open>
  C8 as stated fails: \<^verbatim>\<open>canMove\<close> tests the horizontal range first, so a look-ahead
  cell that is outside the grid both horizontally and vertically is passable. At
  \<open>x = -36\<close>, \<open>y = 0\<close>, heading up, the look-ahead cell is column \<open>-1\<close>, row \<open>-1\<close>.
\<close>

theorem canMove_vertical_counterexample:
  "snd (lookahead (- 36) 0 UP) < 0 \<and> canMove demo_state (- 36) 0 UP"
  by (simp add: lookahead_def canMove_def)

text \<open>
  C8, amended: \<^verbatim>\<open>canMove\<close> returns true whenever the look-ahead cell is horizontally
  outside the grid, and false whenever it is horizontally inside and vertically outside;
  the wrap statements send an x below \<open>-TILE_SIZE\<close> to \<open>CANVAS_WIDTH\<close> and an x above
  \<open>CANVAS_WIDTH\<close> to \<open>-TILE_SIZE\<close>, so after their move the player and a ghost are
  within these two values.
\<close>

theorem canMove_bounds:
  "(fst (lookahead x y d) < 0 \<or> fst (lookahead x y d) \<ge> GRID_WIDTH \<longrightarrow> canMove s x y d) \<and>
   (0 \<le> fst (lookahead x y d) \<and> fst (lookahead x y d) < GRID_WIDTH \<and>
      (snd (lookahead x y d) < 0 \<or> snd (lookahead x y d) \<ge> GRID_HEIGHT)
        \<longrightarrow> \<not> canMove s x y d) \<and>
   (x < - TILE_SIZE \<longrightarrow> wrap x = CANVAS_WIDTH) \<and>
   (x > CANVAS_WIDTH \<longrightarrow> wrap x = - TILE_SIZE) \<and>
   pos_x (pacman (move_phase s)) \<in> {- TILE_SIZE .. CANVAS_WIDTH} \<and>
   pos_x (ghost_move g) \<in> {- TILE_SIZE .. CANVAS_WIDTH}"
  by (auto simp: canMove_def lookahead_def wrap_def Let_def move_phase_def ghost_move_def)

theorem canMove_bounds_witness:
  "fst (lookahead (- 36) 36 LEFT) < 0 \<and> canMove demo_state (- 36) 36 LEFT \<and>
   fst (lookahead 36 0 UP) = 1 \<and> snd (lookahead 36 0 UP) < 0 \<and> \<not> canMove demo_state 36 0 UP \<and>
   wrap (- 40) = 540 \<and> wrap 544 = - 36"
  using canMove_bounds [where x = "- 36" and y = 36 and d = LEFT and s = demo_state]
    canMove_bounds [where x = 36 and y = 0 and d = UP and s = demo_state]
    canMove_bounds [where x = "- 40"] canMove_bounds [where x = 544]
  by (simp add: lookahead_def)

subsection \<open>C10: eaten and dying ghosts do not collide\<close>

text \<open>
  C10: for a ghost whose \<^verbatim>\<open>isEaten\<close> or \<^verbatim>\<open>isDying\<close> flag is set, the collision
  block does nothing; its whole step queues no life-loss updater and leaves lives, run
  state, score, the player and the other ghosts as they are, and a dying ghost only
  advances its death animation (its timer is not restarted and no points are scored).
\<close>

theorem eaten_or_dying_ghost_skips_collision:
  assumes "i < length (ghosts s)"
      and "isEaten (ghosts s ! i) \<or> isDying (ghosts s ! i)"
  shows "ghost_collide pac i s = s \<and>
         queued (ghost_step inp pac i s) = queued s \<and>
         lives (ghost_step inp pac i s) = lives s \<and>
         gameState (ghost_step inp pac i s) = gameState s \<and>
         score (ghost_step inp pac i s) = score s \<and>
         pacman (ghost_step inp pac i s) = pacman s \<and>
         (\<forall>j. j \<noteq> i \<longrightarrow> ghosts (ghost_step inp pac i s) ! j = ghosts s ! j) \<and>
         (isDying (ghosts s ! i) \<longrightarrow>
            ghosts (ghost_step inp pac i s) ! i = ghost_dying (ghosts s ! i))"
  using assms
  by (auto simp: ghost_step_def ghost_collide_def ghost_revive_def Let_def)

theorem eaten_or_dying_ghost_skips_collision_witness:
  "isDying (ghosts guard_state ! 0) \<and> isEaten (ghosts guard_state ! 1) \<and>
   queued (ghost_step no_draws start_pacman 0 guard_state) = 0 \<and>
   queued (ghost_step no_draws start_pacman 1 guard_state) = 0 \<and>
   lives (ghost_step no_draws start_pacman 0 guard_state) = 3 \<and>
   score (ghost_step no_draws start_pacman 0 guard_state) = 0 \<and>
   deathTimer (ghosts (ghost_step no_draws start_pacman 0 guard_state) ! 0) = 9 \<and>
   lives (ghost_step no_draws start_pacman 1 guard_state) = 3 \<and>
   gameState (ghost_step no_draws start_pacman 1 guard_state) = PLAYING"
  using eaten_or_dying_ghost_skips_collision
          [where i = 0 and s = guard_state and inp = no_draws and pac = start_pacman]
        eaten_or_dying_ghost_skips_collision
          [where i = 1 and s = guard_state and inp = no_draws and pac = start_pacman]
  by (simp add: guard_state_def demo_state_def start_ghost_def ghost_dying_def)

subsection \<open>C1: life loss and power mode\<close>

text \<open>
  C1 (the code departs from it): with the power-mode counter at 300, a witch that reaches
  the player takes a life. The tombstone branch tests \<^verbatim>\<open>powerModeRef.current === 0\<close>
  before calling \<^verbatim>\<open>setLives\<close> with the life-loss updater; the witch branch calls it
  with no such test, so \<^verbatim>\<open>update\<close> queues the updater and the render takes the life.
\<close>

theorem witch_hits_during_power_mode:
  "powerMode witch_state = 300 \<and> lives witch_state = 3 \<and> queued witch_state = 0 \<and>
   queued (update no_draws witch_state) = 1 \<and>
   lives (tick no_draws witch_state) = 2 \<and> powerMode (tick no_draws witch_state) = 299"
proof -
  have p: "gameState witch_state = PLAYING" "pacman witch_state = start_pacman"
    "eatenPellets witch_state = 0" "totalPellets witch_state = 100"
    "powerMode witch_state = 300" "lives witch_state = 3" "queued witch_state = 0"
    by (simp_all add: witch_state_def demo_state_def)
  have "\<not> win_reached 0 100" by (simp add: win_reached_def)
  then have u: "update no_draws witch_state = witches_phase start_pacman
     (witch_state\<lparr>powerMode := 299, ghosts := map (\<lambda>g. g\<lparr>pos_y := 358\<rparr>) (map start_ghost [0,1,2,3])\<rparr>)"
    by (simp add: update_playing p witch_state_move start_pacman_inside witch_state_tile witch_state_power witch_state_ghosts no_draws_sel win_phase_def)
  then have q: "queued (update no_draws witch_state) = 1" "powerMode (update no_draws witch_state) = 299"
    using witch_state_witches by simp_all
  have "1 < lives (update no_draws witch_state)" "0 < queued (update no_draws witch_state)"
    using q by (simp_all add: p)
  from render_more [OF this] q show ?thesis by (simp add: tick_def p)
qed

subsection \<open>C9: losing the last life\<close>

text \<open>
  C9: a life-loss event is a call of \<^verbatim>\<open>setLives\<close> with the life-loss updater.
  \<^verbatim>\<open>update\<close> makes one for a tombstone the unpowered player reaches, for a ghost that
  after its move is within 0.8 tiles of the player and neither scared, eaten nor dying, and
  for an active witch that after its move is within 0.7 tiles; the updaters run in the
  render that ends the tick, and none is pending when a tick starts. When a tick with such
  an event starts with one life, it ends with lives 0 and the run in \<^verbatim>\<open>GAMEOVER\<close>, and
  the render resets no position: the player and the ghosts are as \<^verbatim>\<open>update\<close> left
  them, the player where its move ended. When it starts with more lives, every queued
  updater takes one life, down to 0 where the run is \<^verbatim>\<open>GAMEOVER\<close>, and the positions
  are reset: the player is on its start tile with no direction and speed 4, and every ghost
  is at its house position heading up, neither scared, eaten nor dying.
\<close>

theorem life_loss_at_last_life:
  "(reachable s \<longrightarrow> queued s = 0) \<and>
   (gameState s = PLAYING \<and> powerMode s = 0
      \<and> cell_at (maze (move_phase s)) (centre_cell (pos_y (pacman (move_phase s))))
            (centre_cell (pos_x (pacman (move_phase s)))) = Some TOMBSTONE
      \<longrightarrow> queued s < queued (update inp s)) \<and>
   (gameState s = PLAYING \<and> i < length (ghosts s)
      \<and> g = ghost_move (ghost_choose (before_ghosts inp s) (ghost_dir_draw inp i)
                          (ghosts (before_ghosts inp s) ! i))
      \<and> \<not> isScared g \<and> \<not> isEaten g \<and> \<not> isDying g
      \<and> closer_than (real_of_int TILE_SIZE * 0.8)
            (real_of_int (pos_x (pacman (move_phase s))))
            (real_of_int (pos_y (pacman (move_phase s))))
            (real_of_int (pos_x g)) (real_of_int (pos_y g))
      \<longrightarrow> queued s < queued (update inp s)) \<and>
   (gameState s = PLAYING \<and> j < length (witches (before_witches inp s))
      \<and> w = witches (before_witches inp s) ! j \<and> active w
      \<and> closer_than (real_of_int TILE_SIZE * 0.7)
            (real_of_int (pos_x (pacman (move_phase s))))
            (real_of_int (pos_y (pacman (move_phase s))))
            (wx w + sin ((wy w + wspeed w) / 30 + phase w) * 3) (wy w + wspeed w)
      \<longrightarrow> queued s < queued (update inp s)) \<and>
   (queued s < queued (update inp s) \<and> lives s \<le> 1 \<longrightarrow>
      lives (tick inp s) = 0 \<and> gameState (tick inp s) = GAMEOVER \<and>
      pacman (tick inp s) = pacman (update inp s) \<and>
      ghosts (tick inp s) = ghosts (update inp s) \<and>
      (\<not> out_of_bounds (pacman (move_phase s)) \<longrightarrow>
         pacman (tick inp s) = pacman (move_phase s))) \<and>
   (queued s < queued (update inp s) \<and> 1 < lives s \<longrightarrow>
      lives (tick inp s) = max 0 (lives s - int (queued (update inp s))) \<and>
      lives (tick inp s) < lives s \<and>
      gameState (tick inp s) =
        (if lives s \<le> int (queued (update inp s)) then GAMEOVER else gameState (update inp s)) \<and>
      pacman (tick inp s) =
        \<lparr>pos_x = 252, pos_y = 684, dir = NONE, nextDir = NONE, speed = 4\<rparr> \<and>
      ghosts (tick inp s) =
        map (\<lambda>(k, h). h\<lparr>pos_x := (if k mod 2 = 0 then 216 else 288), pos_y := 360, dir := UP,
                         isScared := False, isEaten := False, isDying := False\<rparr>)
          (enumerate 0 (ghosts (update inp s))))"
proof (intro conjI impI)
  assume "reachable s"
  then show "queued s = 0" using reachable_invariants by blast
next
  assume a: "gameState s = PLAYING \<and> powerMode s = 0
      \<and> cell_at (maze (move_phase s)) (centre_cell (pos_y (pacman (move_phase s))))
            (centre_cell (pos_x (pacman (move_phase s)))) = Some TOMBSTONE"
  then have "queued (before_ghosts inp s) = Suc (queued s)"
    by (intro unpowered_tombstone) simp_all
  with a before_ghosts_le_update [of s inp] show "queued s < queued (update inp s)"
    by simp
next
  let ?t = "before_ghosts inp s"
  assume a: "gameState s = PLAYING \<and> i < length (ghosts s)
      \<and> g = ghost_move (ghost_choose ?t (ghost_dir_draw inp i) (ghosts ?t ! i))
      \<and> \<not> isScared g \<and> \<not> isEaten g \<and> \<not> isDying g
      \<and> closer_than (real_of_int TILE_SIZE * 0.8)
            (real_of_int (pos_x (pacman (move_phase s))))
            (real_of_int (pos_y (pacman (move_phase s))))
            (real_of_int (pos_x g)) (real_of_int (pos_y g))"
  then have "i < length (ghosts s)" by blast
  then have l: "i < length (ghosts ?t)" by simp
  from a have h:
    "g = ghost_move (ghost_choose ?t (ghost_dir_draw inp i) (ghosts ?t ! i))"
    "\<not> isScared g" "\<not> isEaten g" "\<not> isDying g"
    "closer_than (real_of_int TILE_SIZE * 0.8)
            (real_of_int (pos_x (pacman (move_phase s))))
            (real_of_int (pos_y (pacman (move_phase s))))
            (real_of_int (pos_x g)) (real_of_int (pos_y g))"
    by blast+
  have "queued ?t < queued (ghosts_phase inp (pacman (move_phase s)) ?t)"
    by (rule ghosts_phase_bite [OF l h])
  then have "queued ?t < queued (before_witches inp s)" by simp
  with a before_ghosts_queued [of s inp] before_witches_le_update [of s inp]
  show "queued s < queued (update inp s)" by simp
next
  let ?t = "before_witches inp s"
  assume a: "gameState s = PLAYING \<and> j < length (witches ?t)
      \<and> w = witches ?t ! j \<and> active w
      \<and> closer_than (real_of_int TILE_SIZE * 0.7)
            (real_of_int (pos_x (pacman (move_phase s))))
            (real_of_int (pos_y (pacman (move_phase s))))
            (wx w + sin ((wy w + wspeed w) / 30 + phase w) * 3) (wy w + wspeed w)"
  then have h: "j < length (witches ?t)" "w = witches ?t ! j" "active w"
    "closer_than (real_of_int TILE_SIZE * 0.7)
            (real_of_int (pos_x (pacman (move_phase s))))
            (real_of_int (pos_y (pacman (move_phase s))))
            (wx w + sin ((wy w + wspeed w) / 30 + phase w) * 3) (wy w + wspeed w)"
    by blast+
  have "queued ?t < queued (witches_phase (pacman (move_phase s)) ?t)"
    by (rule witches_phase_hit [OF h])
  moreover have "queued s \<le> queued ?t"
    using before_ghosts_queued [of s inp] before_witches_queued [of inp s] by simp
  ultimately show "queued s < queued (update inp s)"
    using a by (simp add: update_loops)
next
  assume a: "queued s < queued (update inp s) \<and> lives s \<le> 1"
  then have q: "lives (update inp s) \<le> 1" "0 < queued (update inp s)" by simp_all
  note r = render_last [OF q]
  show "lives (tick inp s) = 0" "gameState (tick inp s) = GAMEOVER"
    "pacman (tick inp s) = pacman (update inp s)" "ghosts (tick inp s) = ghosts (update inp s)"
    by (simp_all add: tick_def r)
  assume "\<not> out_of_bounds (pacman (move_phase s))"
  with a event_playing [of s inp] show "pacman (tick inp s) = pacman (move_phase s)"
    by (simp add: tick_def r update_pacman)
next
  assume a: "queued s < queued (update inp s) \<and> 1 < lives s"
  then have q: "1 < lives (update inp s)" "0 < queued (update inp s)" by simp_all
  note r = render_more [OF q]
  show "lives (tick inp s) = max 0 (lives s - int (queued (update inp s)))"
    by (simp add: tick_def r)
  show "lives (tick inp s) < lives s"
    using a by (simp add: tick_def r)
  show "gameState (tick inp s) =
        (if lives s \<le> int (queued (update inp s)) then GAMEOVER else gameState (update inp s))"
    by (simp add: tick_def r)
  show "pacman (tick inp s) = \<lparr>pos_x = 252, pos_y = 684, dir = NONE, nextDir = NONE, speed = 4\<rparr>"
    by (simp add: tick_def r resetPositions_fields)
  show "ghosts (tick inp s) =
        map (\<lambda>(k, h). h\<lparr>pos_x := (if k mod 2 = 0 then 216 else 288), pos_y := 360, dir := UP,
                         isScared := False, isEaten := False, isDying := False\<rparr>)
          (enumerate 0 (ghosts (update inp s)))"
    by (simp add: tick_def r resetPositions_fields)
qed

theorem life_loss_at_last_life_witness:
  "reachable first_stage \<and> queued first_stage = 0 \<and>
   lives (tomb_state 1) = 1 \<and> powerMode (tomb_state 1) = 0 \<and>
   lives (tick no_draws (tomb_state 1)) = 0 \<and>
   gameState (tick no_draws (tomb_state 1)) = GAMEOVER \<and>
   pacman (tick no_draws (tomb_state 1)) = start_pacman\<lparr>pos_x := 236, dir := RIGHT\<rparr> \<and>
   lives (tick no_draws (tomb_state 3)) < 3 \<and>
   pacman (tick no_draws (tomb_state 3)) = start_pacman \<and>
   lives (tick no_draws (bite_state 1)) = 0 \<and>
   gameState (tick no_draws (bite_state 1)) = GAMEOVER \<and>
   ghosts (tick no_draws (bite_state 1)) = ghosts (update no_draws (bite_state 1)) \<and>
   gameState (update no_draws win_bite_state) = WON \<and>
   gameState (tick no_draws win_bite_state) = GAMEOVER \<and>
   lives (tick no_draws win_bite_state) = 0 \<and>
   queued (update no_draws double_bite_state) = 2 \<and>
   lives (tick no_draws double_bite_state) = 1 \<and>
   gameState (tick no_draws double_bite_state) = PLAYING \<and>
   pacman (tick no_draws double_bite_state) = start_pacman \<and>
   pos_x (ghosts (tick no_draws double_bite_state) ! 0) = 216 \<and>
   pos_y (ghosts (tick no_draws double_bite_state) ! 0) = 360 \<and>
   lives (tick no_draws last_witch_state) = 0 \<and>
   gameState (tick no_draws last_witch_state) = GAMEOVER"
proof -
  have first: "reachable first_stage \<and> queued first_stage = 0"
    using life_loss_at_last_life [where s = first_stage and inp = no_draws and i = 0 and j = 0
        and g = "start_ghost 0" and w = "witches witch_state ! 0", THEN conjunct1]
      first_stage_reachable
    by simp
  have h: "gameState (tomb_state l) = PLAYING" "powerMode (tomb_state l) = 0"
    "lives (tomb_state l) = l" "maze (tomb_state l) = set_cell box_maze 19 7 TOMBSTONE" for l
    by (simp_all add: tomb_state_def demo_state_def)
  have c: "centre_cell (pos_y start_pacman) = 19" "centre_cell 236 = 7"
    by (simp_all add: centre_cell_def start_pacman_def)
  have o: "\<not> out_of_bounds (start_pacman\<lparr>pos_x := 236, dir := RIGHT\<rparr>)"
    by (simp add: out_of_bounds_def start_pacman_def)
  have tq: "queued (tomb_state l) < queued (update no_draws (tomb_state l))" for l
    using life_loss_at_last_life [where s = "tomb_state l" and inp = no_draws and i = 0 and j = 0
        and g = "start_ghost 0" and w = "witches witch_state ! 0",
        THEN conjunct2, THEN conjunct1]
    by (simp add: tomb_state_move h c tomb_state_cell)
  have tomb1:
    "lives (tick no_draws (tomb_state 1)) = 0 \<and>
     gameState (tick no_draws (tomb_state 1)) = GAMEOVER \<and>
     pacman (tick no_draws (tomb_state 1)) = start_pacman\<lparr>pos_x := 236, dir := RIGHT\<rparr>"
    using life_loss_at_last_life [where s = "tomb_state 1" and inp = no_draws and i = 0 and j = 0
        and g = "start_ghost 0" and w = "witches witch_state ! 0",
        THEN conjunct2, THEN conjunct2, THEN conjunct2, THEN conjunct2, THEN conjunct1]
      tq [of 1]
    by (auto simp: tomb_state_move h o)
  have tomb3:
    "lives (tick no_draws (tomb_state 3)) < 3 \<and>
     pacman (tick no_draws (tomb_state 3)) = start_pacman"
    using life_loss_at_last_life [where s = "tomb_state 3" and inp = no_draws and i = 0 and j = 0
        and g = "start_ghost 0" and w = "witches witch_state ! 0",
        THEN conjunct2, THEN conjunct2, THEN conjunct2, THEN conjunct2, THEN conjunct2]
      tq [of 3]
    by (simp add: h start_pacman_def)
  let ?g = "(start_ghost 0)\<lparr>pos_x := 252, pos_y := 682\<rparr>"
  have near: "\<not> isScared ?g" "\<not> isEaten ?g" "\<not> isDying ?g"
    "closer_than (real_of_int TILE_SIZE * 0.8)
       (real_of_int (pos_x start_pacman)) (real_of_int (pos_y start_pacman))
       (real_of_int (pos_x ?g)) (real_of_int (pos_y ?g))"
    by (simp_all add: start_ghost_def start_pacman_def closer_than_iff power2_eq_square)
  have b: "gameState (bite_state l) = PLAYING" "lives (bite_state l) = l"
    "pacman (bite_state l) = start_pacman" "length (ghosts (bite_state l)) = 4" for l
    by (simp_all add: bite_state_def demo_state_def)
  have bq: "queued (bite_state 1) < queued (update no_draws (bite_state 1))"
    using life_loss_at_last_life [where s = "bite_state 1" and inp = no_draws and i = 0 and j = 0
        and g = ?g and w = "witches witch_state ! 0",
        THEN conjunct2, THEN conjunct2, THEN conjunct1]
      near
    by (simp add: bite_state_move bite_state_before bite_state_ghost b)
  have bite1:
    "lives (tick no_draws (bite_state 1)) = 0 \<and>
     gameState (tick no_draws (bite_state 1)) = GAMEOVER \<and>
     ghosts (tick no_draws (bite_state 1)) = ghosts (update no_draws (bite_state 1))"
    using life_loss_at_last_life [where s = "bite_state 1" and inp = no_draws and i = 0 and j = 0
        and g = ?g and w = "witches witch_state ! 0",
        THEN conjunct2, THEN conjunct2, THEN conjunct2, THEN conjunct2, THEN conjunct1]
      bq
    by (simp add: b)
  have v: "gameState win_bite_state = PLAYING" "lives win_bite_state = 1"
    "pacman win_bite_state = start_pacman" "length (ghosts win_bite_state) = 4"
    "totalPellets win_bite_state = 100"
    by (simp_all add: win_bite_state_def bite_state_def demo_state_def)
  have won: "gameState (update no_draws win_bite_state) = WON"
    by (simp add: update_gameState v win_bite_state_before win_reached_def)
  have vq: "queued win_bite_state < queued (update no_draws win_bite_state)"
    using life_loss_at_last_life [where s = win_bite_state and inp = no_draws and i = 0 and j = 0
        and g = ?g and w = "witches witch_state ! 0",
        THEN conjunct2, THEN conjunct2, THEN conjunct1]
      near
    by (simp add: win_bite_state_move win_bite_state_before win_bite_state_ghost v)
  have win:
    "gameState (tick no_draws win_bite_state) = GAMEOVER \<and>
     lives (tick no_draws win_bite_state) = 0"
    using life_loss_at_last_life [where s = win_bite_state and inp = no_draws and i = 0 and j = 0
        and g = ?g and w = "witches witch_state ! 0",
        THEN conjunct2, THEN conjunct2, THEN conjunct2, THEN conjunct2, THEN conjunct1]
      vq
    by (simp add: v)
  have d: "gameState double_bite_state = PLAYING" "lives double_bite_state = 3"
    "queued double_bite_state = 0" "length (ghosts double_bite_state) = 4"
    "eatenPellets double_bite_state = 0" "totalPellets double_bite_state = 100"
    by (simp_all add: double_bite_state_def demo_state_def)
  have dg: "gameState (update no_draws double_bite_state) = PLAYING"
    by (simp add: update_gameState d double_bite_state_before win_reached_def)
  have dl: "0 < length (ghosts (update no_draws double_bite_state))" by (simp add: d)
  have double:
    "lives (tick no_draws double_bite_state) = 1 \<and>
     gameState (tick no_draws double_bite_state) = PLAYING \<and>
     pacman (tick no_draws double_bite_state) = start_pacman \<and>
     pos_x (ghosts (tick no_draws double_bite_state) ! 0) = 216 \<and>
     pos_y (ghosts (tick no_draws double_bite_state) ! 0) = 360"
    using life_loss_at_last_life [where s = double_bite_state and inp = no_draws and i = 0
        and j = 0 and g = ?g and w = "witches witch_state ! 0",
        THEN conjunct2, THEN conjunct2, THEN conjunct2, THEN conjunct2, THEN conjunct2]
      dl
    by (simp add: d dg double_bite_state_queued start_pacman_def nth_enumerate_eq)
  let ?w = "witches witch_state ! 0"
  have lw: "gameState last_witch_state = PLAYING" "lives last_witch_state = 1"
    "pacman last_witch_state = start_pacman" "witches last_witch_state = witches witch_state"
    "length (witches witch_state) = 1" "active ?w"
    "closer_than (real_of_int TILE_SIZE * 0.7)
       (real_of_int (pos_x start_pacman)) (real_of_int (pos_y start_pacman))
       (wx ?w + sin ((wy ?w + wspeed ?w) / 30 + phase ?w) * 3) (wy ?w + wspeed ?w)"
    using sin_drift_close [of "1365 / 60 + 1"]
    by (simp_all add: last_witch_state_def witch_state_def demo_state_def start_pacman_def
        closer_than_iff power2_eq_square)
  have wq: "queued last_witch_state < queued (update no_draws last_witch_state)"
    using life_loss_at_last_life [where s = last_witch_state and inp = no_draws and i = 0
        and j = 0 and g = ?g and w = ?w,
        THEN conjunct2, THEN conjunct2, THEN conjunct2, THEN conjunct1]
      lw(6,7)
    by (simp add: last_witch_state_move before_witches_witches no_draws_sel lw(1-5))
  have witch:
    "lives (tick no_draws last_witch_state) = 0 \<and>
     gameState (tick no_draws last_witch_state) = GAMEOVER"
    using life_loss_at_last_life [where s = last_witch_state and inp = no_draws and i = 0
        and j = 0 and g = ?g and w = ?w,
        THEN conjunct2, THEN conjunct2, THEN conjunct2, THEN conjunct2, THEN conjunct1]
      wq
    by (simp add: lw(1-5))
  from first tomb1 tomb3 bite1 won win double witch show ?thesis
    by (simp add: h double_bite_state_queued)
qed

subsection \<open>C2: pellet accounting\<close>

text \<open>
  C2: in every reachable state the eaten count does not exceed the total, and a tick
  (\<^verbatim>\<open>update\<close> and the render after it) leaves the total as it is and does not lower the
  eaten count, so the ratio of the two does not decrease from one tick to the next (the
  stage changes only through \<^verbatim>\<open>initGame\<close>, which is not part of a tick).
\<close>

theorem pellet_accounting:
  assumes "reachable s"
  shows "eatenPellets s \<le> totalPellets s \<and>
         totalPellets (update inp s) = totalPellets s \<and>
         eatenPellets s \<le> eatenPellets (update inp s) \<and>
         eatenPellets (update inp s) \<le> totalPellets (update inp s) \<and>
         stage (update inp s) = stage s \<and>
         eatenPellets s * totalPellets (update inp s) \<le> eatenPellets (update inp s) * totalPellets s \<and>
         totalPellets (tick inp s) = totalPellets s \<and>
         eatenPellets (tick inp s) = eatenPellets (update inp s) \<and>
         eatenPellets (tick inp s) \<le> totalPellets (tick inp s) \<and>
         stage (tick inp s) = stage s"
proof -
  from reachable_invariants [OF assms] have p: "pellet_inv s" by simp
  from update_pellet_inv [OF p]
  have q: "pellet_inv (update inp s)" .
  have st: "stage (update inp s) = stage s"
    by (cases "gameState s = PLAYING") (simp_all add: update_playing, simp add: update_def)
  from p have t: "0 \<le> totalPellets s" by (simp add: pellet_inv_def)
  have "eatenPellets s * totalPellets s \<le> eatenPellets (update inp s) * totalPellets s"
    using update_pellets(2) [of inp s] t by (auto simp: distrib_right)
  with p q st update_pellets [of inp s] show ?thesis
    by (auto simp: pellet_inv_def tick_def)
qed

theorem pellet_accounting_witness:
  "reachable first_stage \<and> eatenPellets first_stage \<le> totalPellets first_stage \<and>
   eatenPellets first_stage \<le> eatenPellets (update no_draws first_stage) \<and>
   eatenPellets (update no_draws first_stage) \<le> totalPellets (update no_draws first_stage) \<and>
   eatenPellets first_stage \<le> eatenPellets (tick no_draws first_stage) \<and>
   eatenPellets (tick no_draws first_stage) \<le> totalPellets (tick no_draws first_stage)"
  using pellet_accounting [OF first_stage_reachable, of no_draws] first_stage_reachable
  by simp

subsection \<open>C3: wall-break charges\<close>

text \<open>
  C3 as stated fails for tombstones: with power mode running and no charge left, a
  tombstone the player reaches is destroyed all the same (the source decrements the counter
  only \<^verbatim>\<open>if (wallsLeftRef.current > 0)\<close>).
\<close>

theorem tombstone_destroyed_without_charge:
  "wallsLeft power_tomb_state = 0 \<and> 0 < powerMode power_tomb_state \<and>
   cell_at (maze power_tomb_state) 19 7 = Some TOMBSTONE \<and>
   cell_at (maze (update no_draws power_tomb_state)) 19 7 = Some EMPTY \<and>
   wallsLeft (update no_draws power_tomb_state) = 0"
proof -
  have h: "gameState power_tomb_state = PLAYING" "wallsLeft power_tomb_state = 0"
    "powerMode power_tomb_state = 300"
    "maze power_tomb_state = set_cell box_maze 19 7 TOMBSTONE"
    by (simp_all add: power_tomb_state_def tomb_state_def demo_state_def)
  have o: "\<not> out_of_bounds (start_pacman\<lparr>pos_x := 236, dir := RIGHT\<rparr>)"
    by (simp add: out_of_bounds_def start_pacman_def)
  have c: "centre_cell (pos_y start_pacman) = 19" "centre_cell 236 = 7"
    by (simp_all add: centre_cell_def start_pacman_def)
  have t: "tile_phase no_draws (start_pacman\<lparr>pos_x := 236, dir := RIGHT\<rparr>)
             (power_tomb_state\<lparr>pacman := start_pacman\<lparr>pos_x := 236, dir := RIGHT\<rparr>\<rparr>) =
           power_tomb_state\<lparr>pacman := start_pacman\<lparr>pos_x := 236, dir := RIGHT\<rparr>,
             maze := set_cell (set_cell box_maze 19 7 TOMBSTONE) 19 7 EMPTY,
             wallsLeft := 0, score := score power_tomb_state + 100\<rparr>"
    by (simp add: tile_phase_def hit_tombstone_def Let_def c h tomb_state_cell)
  have "maze (update no_draws power_tomb_state) = set_cell (set_cell box_maze 19 7 TOMBSTONE) 19 7 EMPTY"
    "wallsLeft (update no_draws power_tomb_state) = 0"
    by (simp_all add: update_maze_no_draws update_wallsLeft_eq h power_tomb_state_move o t)
  then show ?thesis
    using tomb_state_cell by (simp add: h cell_at_set_cell)
qed

text \<open>
  C3, amended: the charge counter is not negative in any reachable state; and in every
  state, a cell that is a wall before a tick and not after it was broken with the counter
  and the power-mode counter both above 0 at the start of the tick, and the break took one
  charge. A tombstone the player reaches in power mode is destroyed whether or not a charge
  is left: the tile is empty when the tile effects are done and is no tombstone at the end
  of the tick, a charge is taken if there is one and the counter stays as it is otherwise,
  and no life-loss updater is queued.
\<close>

theorem wall_break_charges:
  "(reachable s \<longrightarrow> 0 \<le> wallsLeft s) \<and>
   (\<forall>gy gx. cell_at (maze s) gy gx = Some WALL \<and> cell_at (maze (update inp s)) gy gx \<noteq> Some WALL
      \<longrightarrow> 0 < powerMode s \<and> 0 < wallsLeft s \<and> wallsLeft (move_phase s) = wallsLeft s - 1) \<and>
   (gameState s = PLAYING \<and> 0 < powerMode s
      \<and> cell_at (maze (move_phase s)) (centre_cell (pos_y (pacman (move_phase s))))
            (centre_cell (pos_x (pacman (move_phase s)))) = Some TOMBSTONE
      \<longrightarrow>
      cell_at (maze (before_ghosts inp s)) (centre_cell (pos_y (pacman (move_phase s))))
         (centre_cell (pos_x (pacman (move_phase s)))) = Some EMPTY \<and>
      cell_at (maze (update inp s)) (centre_cell (pos_y (pacman (move_phase s))))
         (centre_cell (pos_x (pacman (move_phase s)))) \<noteq> Some TOMBSTONE \<and>
      wallsLeft (update inp s) =
        (if 0 < wallsLeft (move_phase s) then wallsLeft (move_phase s) - 1
         else wallsLeft (move_phase s)) \<and>
      queued (before_ghosts inp s) = queued s)"
proof (intro conjI allI impI)
  assume "reachable s"
  then show "0 \<le> wallsLeft s" using reachable_invariants by blast
next
  fix gy gx
  assume a: "cell_at (maze s) gy gx = Some WALL \<and> cell_at (maze (update inp s)) gy gx \<noteq> Some WALL"
  have "gameState s \<noteq> PLAYING \<Longrightarrow> update inp s = s" by (simp add: update_def)
  with a have playing: "gameState s = PLAYING" by metis
  from a update_walls_kept_after_move [OF playing, of inp]
  have "cell_at (maze (move_phase s)) gy gx \<noteq> Some WALL"
    by (auto simp: walls_kept_def)
  with a have "maze (move_phase s) \<noteq> maze s" by auto
  with move_phase_break [of s]
  show "0 < powerMode s" "0 < wallsLeft s" "wallsLeft (move_phase s) = wallsLeft s - 1"
    by blast+
next
  let ?cy = "centre_cell (pos_y (pacman (move_phase s)))"
  let ?cx = "centre_cell (pos_x (pacman (move_phase s)))"
  assume a: "gameState s = PLAYING \<and> 0 < powerMode s
      \<and> cell_at (maze (move_phase s)) ?cy ?cx = Some TOMBSTONE"
  then have p: "gameState s = PLAYING" "0 < powerMode s"
    "cell_at (maze (move_phase s)) ?cy ?cx = Some TOMBSTONE"
    by simp_all
  note t = powered_tombstone [OF p(2,3), of inp]
  show "cell_at (maze (before_ghosts inp s)) ?cy ?cx = Some EMPTY" by (rule t(1))
  show "queued (before_ghosts inp s) = queued s" by (rule t(3))
  show "wallsLeft (update inp s) =
        (if 0 < wallsLeft (move_phase s) then wallsLeft (move_phase s) - 1
         else wallsLeft (move_phase s))"
    using t(2) p(1) by (simp only: update_wallsLeft_loops)
  let ?b = "bonus_phase (candy_bonus inp) POWER_CANDY (before_ghosts inp s)"
  from bonus_phase_cell [of "candy_bonus inp" POWER_CANDY "before_ghosts inp s" ?cy ?cx] t(1)
  have "cell_at (maze ?b) ?cy ?cx \<noteq> Some TOMBSTONE" by auto
  with bonus_phase_cell [of "fruit_bonus inp" FRUIT ?b ?cy ?cx]
  have "cell_at (maze (bonus_phase (fruit_bonus inp) FRUIT ?b)) ?cy ?cx \<noteq> Some TOMBSTONE"
    by auto
  then show "cell_at (maze (update inp s)) ?cy ?cx \<noteq> Some TOMBSTONE"
    unfolding update_maze [OF p(1)] .
qed

theorem wall_break_charges_witness:
  "reachable first_stage \<and> 0 \<le> wallsLeft first_stage \<and>
   cell_at (maze break_state) 0 1 = Some WALL \<and>
   cell_at (maze (update no_draws break_state)) 0 1 = Some EMPTY \<and>
   0 < powerMode break_state \<and> wallsLeft break_state = 5 \<and>
   wallsLeft (move_phase break_state) = 4 \<and>
   0 < powerMode charged_tomb_state \<and> wallsLeft charged_tomb_state = 2 \<and>
   cell_at (maze charged_tomb_state) 19 7 = Some TOMBSTONE \<and>
   cell_at (maze (before_ghosts no_draws charged_tomb_state)) 19 7 = Some EMPTY \<and>
   cell_at (maze (update no_draws charged_tomb_state)) 19 7 \<noteq> Some TOMBSTONE \<and>
   wallsLeft (update no_draws charged_tomb_state) = 1 \<and>
   wallsLeft power_tomb_state = 0 \<and>
   cell_at (maze (before_ghosts no_draws power_tomb_state)) 19 7 = Some EMPTY \<and>
   wallsLeft (update no_draws power_tomb_state) = 0"
proof -
  have h: "gameState break_state = PLAYING" "maze break_state = box_maze"
    "wallsLeft break_state = 5" "powerMode break_state = 300"
    by (simp_all add: break_state_def demo_state_def)
  have o: "\<not> out_of_bounds (start_pacman\<lparr>pos_x := 36, pos_y := 16, dir := UP\<rparr>)"
    by (simp add: out_of_bounds_def start_pacman_def)
  have c: "centre_cell 16 = 0" "centre_cell 36 = 1"
    by (simp_all add: centre_cell_def)
  have e: "cell_at (set_cell box_maze 0 1 EMPTY) 0 1 = Some EMPTY"
    by (simp add: cell_at_set_cell box_maze_top)
  have "maze (update no_draws break_state) = set_cell box_maze 0 1 EMPTY"
    by (simp add: update_maze_no_draws h break_state_move o tile_phase_def Let_def c e)
  then have walls: "reachable first_stage \<and> 0 \<le> wallsLeft first_stage \<and>
     cell_at (maze break_state) 0 1 = Some WALL \<and>
     cell_at (maze (update no_draws break_state)) 0 1 = Some EMPTY \<and>
     0 < powerMode break_state \<and> wallsLeft break_state = 5 \<and>
     wallsLeft (move_phase break_state) = 4"
    using wall_break_charges [where s = first_stage]
      wall_break_charges [where s = break_state and inp = no_draws]
      first_stage_reachable
    by (simp add: h e box_maze_top break_state_move)
  have k: "gameState charged_tomb_state = PLAYING" "powerMode charged_tomb_state = 300"
    "wallsLeft charged_tomb_state = 2"
    "maze charged_tomb_state = set_cell box_maze 19 7 TOMBSTONE"
    "gameState power_tomb_state = PLAYING" "powerMode power_tomb_state = 300"
    "wallsLeft power_tomb_state = 0"
    "maze power_tomb_state = set_cell box_maze 19 7 TOMBSTONE"
    by (simp_all add: charged_tomb_state_def power_tomb_state_def tomb_state_def demo_state_def)
  have cc: "centre_cell (pos_y start_pacman) = 19" "centre_cell 236 = 7"
    by (simp_all add: centre_cell_def start_pacman_def)
  have tombs: "cell_at (maze (before_ghosts no_draws charged_tomb_state)) 19 7 = Some EMPTY \<and>
     cell_at (maze (update no_draws charged_tomb_state)) 19 7 \<noteq> Some TOMBSTONE \<and>
     wallsLeft (update no_draws charged_tomb_state) = 1 \<and>
     cell_at (maze (before_ghosts no_draws power_tomb_state)) 19 7 = Some EMPTY \<and>
     wallsLeft (update no_draws power_tomb_state) = 0"
    using wall_break_charges [where s = charged_tomb_state and inp = no_draws,
        THEN conjunct2, THEN conjunct2]
      wall_break_charges [where s = power_tomb_state and inp = no_draws,
        THEN conjunct2, THEN conjunct2]
    by (simp add: charged_tomb_state_move power_tomb_state_move k cc tomb_state_cell)
  from walls tombs show ?thesis by (simp add: k tomb_state_cell)
qed

subsection \<open>C4: power mode and scared ghosts\<close>

text \<open>
  C4 as stated fails: an eaten ghost that respawns while the power-mode counter is
  running comes back neither eaten, nor dying, nor scared.
\<close>

theorem revived_ghost_not_scared:
  "0 < powerMode (update revive_draws revive_state) \<and>
   \<not> isEaten (ghosts (update revive_draws revive_state) ! 0) \<and>
   \<not> isDying (ghosts (update revive_draws revive_state) ! 0) \<and>
   \<not> isScared (ghosts (update revive_draws revive_state) ! 0)"
proof -
  have p: "gameState revive_state = PLAYING" "pacman revive_state = start_pacman"
    "eatenPellets revive_state = 0" "totalPellets revive_state = 100" "witches revive_state = []"
    by (simp_all add: revive_state_def demo_state_def)
  have d: "candy_bonus revive_draws = None" "fruit_bonus revive_draws = None"
    "witch_spawn revive_draws = None"
    by (simp_all add: revive_draws_def no_draws_def)
  have "\<not> win_reached 0 100" by (simp add: win_reached_def)
  then have "update revive_draws revive_state =
     witches_phase start_pacman (revive_state\<lparr>powerMode := 299,
       ghosts := [(start_ghost 0)\<lparr>pos_x := 7 * TILE_SIZE, pos_y := 358\<rparr>,
                  (start_ghost 1)\<lparr>isScared := True, pos_y := 359\<rparr>,
                  (start_ghost 2)\<lparr>isScared := True, pos_y := 359\<rparr>,
                  (start_ghost 3)\<lparr>isScared := True, pos_y := 359\<rparr>]\<rparr>)"
    by (simp add: update_playing p revive_state_move start_pacman_inside revive_state_tile
        revive_state_power revive_state_ghosts d win_phase_def)
  then show ?thesis
    by (simp add: witches_phase_def p start_ghost_def revive_state_def demo_state_def)
qed

text \<open>
  C4, amended: in every reachable state the power-mode counter is not negative, and while
  it is 0 no ghost is scared (so every ghost that is neither eaten nor dying is normal).
  Eating a power candy sets the counter to 600 and scares every ghost that is not eaten,
  and the countdown step that brings the counter to 0 clears the scared flag of every
  ghost; eaten and dying ghosts stay eaten and dying. While the counter is positive a ghost
  may be normal.
\<close>

theorem power_mode_scared:
  "(reachable s \<longrightarrow>
      0 \<le> powerMode s \<and> (powerMode s = 0 \<longrightarrow> list_all (\<lambda>g. \<not> isScared g) (ghosts s))) \<and>
   powerMode (eat_candy inp gy gx s) = 600 \<and>
   list_all (\<lambda>g. isEaten g \<or> isScared g) (ghosts (eat_candy inp gy gx s)) \<and>
   (0 < powerMode s \<and> powerMode (power_phase s) = 0 \<longrightarrow>
      list_all (\<lambda>g. \<not> isScared g) (ghosts (power_phase s)) \<and>
      map isEaten (ghosts (power_phase s)) = map isEaten (ghosts s) \<and>
      map isDying (ghosts (power_phase s)) = map isDying (ghosts s))"
proof (intro conjI impI)
  assume "reachable s"
  from reachable_invariants [OF this]
  show "0 \<le> powerMode s" "powerMode s = 0 \<Longrightarrow> list_all (\<lambda>g. \<not> isScared g) (ghosts s)"
    by (simp_all add: power_inv_def none_scared_def)
next
  show "powerMode (eat_candy inp gy gx s) = 600" by (simp add: eat_candy_def Let_def)
next
  show "list_all (\<lambda>g. isEaten g \<or> isScared g) (ghosts (eat_candy inp gy gx s))"
    by (auto simp: eat_candy_def Let_def list_all_iff)
next
  assume "0 < powerMode s \<and> powerMode (power_phase s) = 0"
  then have "ghosts (power_phase s) = map (\<lambda>g. g\<lparr>isScared := False\<rparr>) (ghosts s)"
    by (auto simp: power_phase_def Let_def split: if_splits)
  then show "list_all (\<lambda>g. \<not> isScared g) (ghosts (power_phase s))"
    "map isEaten (ghosts (power_phase s)) = map isEaten (ghosts s)"
    "map isDying (ghosts (power_phase s)) = map isDying (ghosts s)"
    by (simp_all add: list_all_iff comp_def)
qed

theorem power_mode_scared_witness:
  "reachable first_stage \<and> powerMode first_stage = 0 \<and>
   list_all (\<lambda>g. \<not> isScared g) (ghosts first_stage) \<and>
   0 < powerMode last_power_state \<and> powerMode (power_phase last_power_state) = 0 \<and>
   list_all isScared (ghosts last_power_state) \<and>
   list_all (\<lambda>g. \<not> isScared g) (ghosts (power_phase last_power_state))"
proof -
  note z = first_stage_fields(1)
  have l: "powerMode last_power_state = 1" "powerMode (power_phase last_power_state) = 0"
    "list_all isScared (ghosts last_power_state)"
    by (simp_all add: last_power_state_def demo_state_def power_phase_def Let_def)
  show ?thesis
    using power_mode_scared [where s = first_stage] first_stage_reachable z
      power_mode_scared [where s = last_power_state] l
    by (simp add: list_all_iff)
qed

subsection \<open>C5: the outer border\<close>

text \<open>
  C5 as stated fails: a wall break empties whatever wall cell the player's centre enters,
  and \<^verbatim>\<open>canMove\<close> lets a powered player with charges walk into border cells. Here
  the player moves up from row 1 and the border cell in row 0, column 1 is emptied.
\<close>

theorem border_wall_broken:
  "border_walled (maze break_state) \<and> \<not> border_walled (maze (update no_draws break_state))"
proof -
  have h: "gameState break_state = PLAYING" "maze break_state = box_maze"
    by (simp_all add: break_state_def demo_state_def)
  have o: "\<not> out_of_bounds (start_pacman\<lparr>pos_x := 36, pos_y := 16, dir := UP\<rparr>)"
    by (simp add: out_of_bounds_def start_pacman_def)
  have c: "centre_cell 16 = 0" "centre_cell 36 = 1"
    by (simp_all add: centre_cell_def)
  have e: "cell_at (set_cell box_maze 0 1 EMPTY) 0 1 = Some EMPTY"
    by (simp add: cell_at_set_cell box_maze_top)
  have "maze (update no_draws break_state) = set_cell box_maze 0 1 EMPTY"
    by (simp add: update_maze_no_draws h break_state_move o tile_phase_def Let_def c e)
  moreover have "\<not> border_walled (set_cell box_maze 0 1 EMPTY)"
  proof
    assume "border_walled (set_cell box_maze 0 1 EMPTY)"
    then have "cell_at (set_cell box_maze 0 1 EMPTY) 0 1 = Some WALL"
      unfolding border_walled_iff by (simp add: interior_def)
    with e show False by simp
  qed
  ultimately show ?thesis by (simp add: h box_maze_border)
qed

text \<open>
  C5, amended: every maze \<^verbatim>\<open>initGame\<close> produces has its whole outer border walled,
  and a tick that starts without an available wall break (power mode off, or no charge
  left) keeps every wall, so the border stays walled. A wall break can empty a border
  cell.
\<close>

theorem border_walls:
  "(initGame b d s0 = Some t \<longrightarrow> border_walled (maze t)) \<and>
   (border_walled (maze s) \<and> \<not> (0 < powerMode s \<and> 0 < wallsLeft s)
      \<longrightarrow> walls_kept (maze s) (maze (update inp s)) \<and> border_walled (maze (update inp s)))"
proof (intro conjI impI)
  assume "initGame b d s0 = Some t"
  then show "border_walled (maze t)" by (rule initGame_result(7))
next
  assume a: "border_walled (maze s) \<and> \<not> (0 < powerMode s \<and> 0 < wallsLeft s)"
  then show k: "walls_kept (maze s) (maze (update inp s))"
    using update_walls_kept by blast
  from a show "border_walled (maze (update inp s))"
    using walls_kept_border [OF k] by blast
qed

theorem border_walls_witness:
  "initGame False d0 mounted \<noteq> None \<and>
   border_walled (maze (the (initGame False d0 mounted))) \<and>
   border_walled (maze first_stage) \<and> powerMode first_stage = 0 \<and>
   border_walled (maze (update no_draws first_stage))"
proof -
  have n: "initGame False d0 mounted \<noteq> None"
    using first_stage_started by (auto simp: startGame_def)
  then have "initGame False d0 mounted = Some (the (initGame False d0 mounted))" by simp
  with n show ?thesis
    using border_walls [where b = False and d = d0 and ?s0.0 = mounted
        and t = "the (initGame False d0 mounted)" and s = first_stage and inp = no_draws]
      first_stage_fields
    by simp
qed

subsection \<open>C7: the death animation\<close>

text \<open>
  C7 as stated fails: \<^verbatim>\<open>resetPositions\<close> clears \<^verbatim>\<open>isDying\<close>. Here a witch reaches
  the player while the first ghost has ten ticks of its animation left. \<^verbatim>\<open>update\<close>
  advances the animation by one step and queues the life-loss updater; the render runs it,
  and after the tick the ghost is neither dying nor eaten and is back at its start
  position.
\<close>

theorem dying_ghost_reset:
  "isDying (ghosts dying_state ! 0) \<and> deathTimer (ghosts dying_state ! 0) = 10 \<and>
   isDying (ghosts (update no_draws dying_state) ! 0) \<and>
   deathTimer (ghosts (update no_draws dying_state) ! 0) = 9 \<and>
   \<not> isDying (ghosts (tick no_draws dying_state) ! 0) \<and>
   \<not> isEaten (ghosts (tick no_draws dying_state) ! 0) \<and>
   pos_y (ghosts (tick no_draws dying_state) ! 0) = 360"
proof -
  have p: "gameState dying_state = PLAYING" "pacman dying_state = start_pacman"
    "eatenPellets dying_state = 0" "totalPellets dying_state = 100"
    "lives dying_state = 3" "length (ghosts dying_state) = 4"
    by (simp_all add: dying_state_def witch_state_def demo_state_def)
  have "\<not> win_reached 0 100" by (simp add: win_reached_def)
  then have u: "update no_draws dying_state = witches_phase start_pacman
     (dying_state\<lparr>powerMode := 299,
       ghosts := [(start_ghost 0)\<lparr>pos_y := 298, isDying := True, deathTimer := 9\<rparr>,
                  (start_ghost 1)\<lparr>pos_y := 358\<rparr>, (start_ghost 2)\<lparr>pos_y := 358\<rparr>,
                  (start_ghost 3)\<lparr>pos_y := 358\<rparr>]\<rparr>)"
    by (simp add: update_playing p dying_state_move start_pacman_inside dying_state_tile
        dying_state_power dying_state_ghosts no_draws_sel win_phase_def)
  then have g: "ghosts (update no_draws dying_state) ! 0
      = (start_ghost 0)\<lparr>pos_y := 298, isDying := True, deathTimer := 9\<rparr>"
    by simp
  have q: "0 < queued (update no_draws dying_state)"
    unfolding u using dying_state_witches by simp
  have l: "1 < lives (update no_draws dying_state)" by (simp add: p)
  have "ghosts (tick no_draws dying_state) ! 0
      = ghosts (resetPositions (update no_draws dying_state)) ! 0"
    by (simp add: tick_def render_more [OF l q])
  also have "\<dots> = resetGhost 0 (ghosts (update no_draws dying_state) ! 0)"
    by (rule resetPositions_nth) (simp add: p)
  finally have "ghosts (tick no_draws dying_state) ! 0
      = resetGhost 0 ((start_ghost 0)\<lparr>pos_y := 298, isDying := True, deathTimer := 9\<rparr>)"
    by (simp only: g)
  then show ?thesis
    by (simp add: g resetGhost_def) (simp add: dying_state_def start_ghost_def)
qed

text \<open>
  C7, amended: a scared ghost caught by the player becomes dying with a timer of 30. The
  update of a dying ghost is the animation step alone: \<^verbatim>\<open>update\<close> applies exactly one
  such step to it when the player is not out of bounds (its scared flag aside), and so
  does the whole tick when the render after \<^verbatim>\<open>update\<close> takes no life. From a timer of
  30, the first 29 steps keep the ghost dying (and not eaten) while it rises by 2 per
  step, and the 30th makes it eaten, no longer dying, at the grid midpoint. A
  \<^verbatim>\<open>resetPositions\<close> in between makes the ghost neither dying, eaten nor scared, at
  its house position heading up.
\<close>

theorem dying_ghost_resolves:
  "(i < length (ghosts s) \<and> isDying (ghosts s ! i) \<longrightarrow>
      ghost_step inp pac i s = s\<lparr>ghosts := (ghosts s)[i := ghost_dying (ghosts s ! i)]\<rparr>) \<and>
   (i < length (ghosts s) \<and> isScared (ghosts s ! i) \<and> \<not> isEaten (ghosts s ! i)
      \<and> \<not> isDying (ghosts s ! i)
      \<and> closer_than (real_of_int TILE_SIZE * 0.8) (real_of_int (pos_x pac)) (real_of_int (pos_y pac))
            (real_of_int (pos_x (ghosts s ! i))) (real_of_int (pos_y (ghosts s ! i)))
      \<longrightarrow> isDying (ghosts (ghost_collide pac i s) ! i)
          \<and> \<not> isEaten (ghosts (ghost_collide pac i s) ! i)
          \<and> deathTimer (ghosts (ghost_collide pac i s) ! i) = 30) \<and>
   (isDying g \<and> deathTimer g = 30 \<longrightarrow>
      (\<forall>k<30. isDying ((ghost_dying ^^ k) g) \<and> isEaten ((ghost_dying ^^ k) g) = isEaten g
               \<and> deathTimer ((ghost_dying ^^ k) g) = 30 - int k
               \<and> pos_y ((ghost_dying ^^ k) g) = pos_y g - 2 * int k) \<and>
      \<not> isDying ((ghost_dying ^^ 30) g) \<and> isEaten ((ghost_dying ^^ 30) g) \<and>
      pos_x ((ghost_dying ^^ 30) g) = (GRID_WIDTH div 2) * TILE_SIZE \<and>
      pos_y ((ghost_dying ^^ 30) g) = (GRID_HEIGHT div 2) * TILE_SIZE) \<and>
   (gameState s = PLAYING \<and> \<not> out_of_bounds (pacman (move_phase s))
      \<and> i < length (ghosts s) \<and> isDying (ghosts s ! i)
      \<longrightarrow> (ghosts (update inp s) ! i)\<lparr>isScared := False\<rparr>
            = (ghost_dying (ghosts s ! i))\<lparr>isScared := False\<rparr>) \<and>
   (gameState s = PLAYING \<and> \<not> out_of_bounds (pacman (move_phase s))
      \<and> i < length (ghosts s) \<and> isDying (ghosts s ! i) \<and> lives (tick inp s) = lives s
      \<longrightarrow> (ghosts (tick inp s) ! i)\<lparr>isScared := False\<rparr>
            = (ghost_dying (ghosts s ! i))\<lparr>isScared := False\<rparr>) \<and>
   \<not> isDying (resetGhost j g) \<and> \<not> isEaten (resetGhost j g) \<and> \<not> isScared (resetGhost j g) \<and>
   pos_x (resetGhost j g) = (if j mod 2 = 0 then 216 else 288) \<and> pos_y (resetGhost j g) = 360 \<and>
   dir (resetGhost j g) = UP"
proof (intro conjI impI allI)
  assume "i < length (ghosts s) \<and> isDying (ghosts s ! i)"
  then show "ghost_step inp pac i s = s\<lparr>ghosts := (ghosts s)[i := ghost_dying (ghosts s ! i)]\<rparr>"
    by (simp add: ghost_step_def)
next
  assume a: "i < length (ghosts s) \<and> isScared (ghosts s ! i) \<and> \<not> isEaten (ghosts s ! i)
      \<and> \<not> isDying (ghosts s ! i)
      \<and> closer_than (real_of_int TILE_SIZE * 0.8) (real_of_int (pos_x pac)) (real_of_int (pos_y pac))
            (real_of_int (pos_x (ghosts s ! i))) (real_of_int (pos_y (ghosts s ! i)))"
  then show "isDying (ghosts (ghost_collide pac i s) ! i)"
    "\<not> isEaten (ghosts (ghost_collide pac i s) ! i)"
    "deathTimer (ghosts (ghost_collide pac i s) ! i) = 30"
    by (simp_all add: ghost_collide_def Let_def)
next
  fix k :: nat
  assume g: "isDying g \<and> deathTimer g = 30" and k: "k < 30"
  from ghost_dying_iterate [OF k, of g] g
  show "isDying ((ghost_dying ^^ k) g)" "isEaten ((ghost_dying ^^ k) g) = isEaten g"
    "deathTimer ((ghost_dying ^^ k) g) = 30 - int k"
    "pos_y ((ghost_dying ^^ k) g) = pos_y g - 2 * int k"
    by simp_all
next
  assume g: "isDying g \<and> deathTimer g = 30"
  then have "deathTimer g = int (Suc 29)" by simp
  from ghost_dying_last [OF this]
  show "\<not> isDying ((ghost_dying ^^ 30) g)" "isEaten ((ghost_dying ^^ 30) g)"
    "pos_x ((ghost_dying ^^ 30) g) = (GRID_WIDTH div 2) * TILE_SIZE"
    "pos_y ((ghost_dying ^^ 30) g) = (GRID_HEIGHT div 2) * TILE_SIZE"
    by simp_all
next
  assume "gameState s = PLAYING \<and> \<not> out_of_bounds (pacman (move_phase s))
      \<and> i < length (ghosts s) \<and> isDying (ghosts s ! i)"
  then show "(ghosts (update inp s) ! i)\<lparr>isScared := False\<rparr>
            = (ghost_dying (ghosts s ! i))\<lparr>isScared := False\<rparr>"
    using dying_update [where s = s and i = i and inp = inp and ?b0.0 = False] by blast
next
  assume a: "gameState s = PLAYING \<and> \<not> out_of_bounds (pacman (move_phase s))
      \<and> i < length (ghosts s) \<and> isDying (ghosts s ! i) \<and> lives (tick inp s) = lives s"
  then have "lives (render (update inp s)) = lives (update inp s)" by (simp add: tick_def)
  then have "ghosts (tick inp s) = ghosts (update inp s)"
    unfolding tick_def by (rule render_same_lives)
  with a show "(ghosts (tick inp s) ! i)\<lparr>isScared := False\<rparr>
            = (ghost_dying (ghosts s ! i))\<lparr>isScared := False\<rparr>"
    using dying_update [where s = s and i = i and inp = inp and ?b0.0 = False] by simp
next
  show "\<not> isDying (resetGhost j g)" "\<not> isEaten (resetGhost j g)" "\<not> isScared (resetGhost j g)"
    "pos_x (resetGhost j g) = (if j mod 2 = 0 then 216 else 288)" "pos_y (resetGhost j g) = 360"
    "dir (resetGhost j g) = UP"
    by (simp_all add: resetGhost_def)
qed

theorem dying_ghost_resolves_witness:
  "isScared (ghosts catch_state ! 0) \<and>
   isDying (ghosts (ghost_collide start_pacman 0 catch_state) ! 0) \<and>
   deathTimer (ghosts (ghost_collide start_pacman 0 catch_state) ! 0) = 30 \<and>
   isDying ((ghost_dying ^^ 29) (ghosts (ghost_collide start_pacman 0 catch_state) ! 0)) \<and>
   \<not> isDying ((ghost_dying ^^ 30) (ghosts (ghost_collide start_pacman 0 catch_state) ! 0)) \<and>
   isEaten ((ghost_dying ^^ 30) (ghosts (ghost_collide start_pacman 0 catch_state) ! 0)) \<and>
   pos_x ((ghost_dying ^^ 30) (ghosts (ghost_collide start_pacman 0 catch_state) ! 0)) = 252 \<and>
   pos_y ((ghost_dying ^^ 30) (ghosts (ghost_collide start_pacman 0 catch_state) ! 0)) = 360 \<and>
   isDying (ghosts guard_state ! 0) \<and>
   ghost_step no_draws start_pacman 0 guard_state =
     guard_state\<lparr>ghosts := (ghosts guard_state)[0 := ghost_dying (ghosts guard_state ! 0)]\<rparr> \<and>
   isDying (ghosts (update no_draws guard_state) ! 0) \<and>
   deathTimer (ghosts (update no_draws guard_state) ! 0) = 9 \<and>
   lives (tick no_draws guard_state) = lives guard_state \<and>
   isDying (ghosts (tick no_draws guard_state) ! 0) \<and>
   deathTimer (ghosts (tick no_draws guard_state) ! 0) = 9"
proof -
  have t1: "gameState guard_state = PLAYING" "lives guard_state = 3"
    "pacman guard_state = start_pacman"
    by (simp_all add: guard_state_def demo_state_def)
  have t: "gameState guard_state = PLAYING" "\<not> out_of_bounds (pacman (move_phase guard_state))"
    "lives (tick no_draws guard_state) = lives guard_state"
    by (simp_all add: t1 guard_state_move start_pacman_inside guard_state_tick)
  have c: "0 < length (ghosts catch_state)" "isScared (ghosts catch_state ! 0)"
    "\<not> isEaten (ghosts catch_state ! 0)" "\<not> isDying (ghosts catch_state ! 0)"
    "closer_than (real_of_int TILE_SIZE * 0.8)
       (real_of_int (pos_x start_pacman)) (real_of_int (pos_y start_pacman))
       (real_of_int (pos_x (ghosts catch_state ! 0))) (real_of_int (pos_y (ghosts catch_state ! 0)))"
    by (simp_all add: catch_state_def demo_state_def start_ghost_def start_pacman_def
        closer_than_iff)
  have g: "0 < length (ghosts guard_state)" "isDying (ghosts guard_state ! 0)"
    by (simp_all add: guard_state_def demo_state_def)
  from dying_ghost_resolves [where i = 0 and s = catch_state and pac = start_pacman] c
  have d: "isDying (ghosts (ghost_collide start_pacman 0 catch_state) ! 0)"
    "deathTimer (ghosts (ghost_collide start_pacman 0 catch_state) ! 0) = 30"
    by simp_all
  from dying_ghost_resolves
         [where g = "ghosts (ghost_collide start_pacman 0 catch_state) ! 0"] d
  have r: "\<forall>k<30. isDying ((ghost_dying ^^ k) (ghosts (ghost_collide start_pacman 0 catch_state) ! 0))"
    "\<not> isDying ((ghost_dying ^^ 30) (ghosts (ghost_collide start_pacman 0 catch_state) ! 0))"
    "isEaten ((ghost_dying ^^ 30) (ghosts (ghost_collide start_pacman 0 catch_state) ! 0))"
    "pos_x ((ghost_dying ^^ 30) (ghosts (ghost_collide start_pacman 0 catch_state) ! 0)) = 252"
    "pos_y ((ghost_dying ^^ 30) (ghosts (ghost_collide start_pacman 0 catch_state) ! 0)) = 360"
    by simp_all
  from r(1) have "isDying ((ghost_dying ^^ 29) (ghosts (ghost_collide start_pacman 0 catch_state) ! 0))"
    by simp
  moreover
  from dying_ghost_resolves [where i = 0 and s = guard_state and inp = no_draws] t g
  have e: "(ghosts (update no_draws guard_state) ! 0)\<lparr>isScared := False\<rparr>
          = (ghost_dying (ghosts guard_state ! 0))\<lparr>isScared := False\<rparr>"
    "(ghosts (tick no_draws guard_state) ! 0)\<lparr>isScared := False\<rparr>
          = (ghost_dying (ghosts guard_state ! 0))\<lparr>isScared := False\<rparr>"
    by blast+
  from e(1) have "isDying ((ghosts (update no_draws guard_state) ! 0)\<lparr>isScared := False\<rparr>)
          = isDying ((ghost_dying (ghosts guard_state ! 0))\<lparr>isScared := False\<rparr>)"
    "deathTimer ((ghosts (update no_draws guard_state) ! 0)\<lparr>isScared := False\<rparr>)
          = deathTimer ((ghost_dying (ghosts guard_state ! 0))\<lparr>isScared := False\<rparr>)"
    by simp_all
  then have "isDying (ghosts (update no_draws guard_state) ! 0)"
    "deathTimer (ghosts (update no_draws guard_state) ! 0) = 9"
    by (simp_all add: guard_state_def demo_state_def start_ghost_def ghost_dying_def Let_def)
  moreover
  from e(2) have "isDying ((ghosts (tick no_draws guard_state) ! 0)\<lparr>isScared := False\<rparr>)
          = isDying ((ghost_dying (ghosts guard_state ! 0))\<lparr>isScared := False\<rparr>)"
    "deathTimer ((ghosts (tick no_draws guard_state) ! 0)\<lparr>isScared := False\<rparr>)
          = deathTimer ((ghost_dying (ghosts guard_state ! 0))\<lparr>isScared := False\<rparr>)"
    by simp_all
  then have "isDying (ghosts (tick no_draws guard_state) ! 0)"
    "deathTimer (ghosts (tick no_draws guard_state) ! 0) = 9"
    by (simp_all add: guard_state_def demo_state_def start_ghost_def ghost_dying_def Let_def)
  ultimately show ?thesis
    using c d r g t
      dying_ghost_resolves [where i = 0 and s = guard_state and pac = start_pacman and inp = no_draws]
    by simp
qed

subsection \<open>C6: termination of the placement loops\<close>


end
